theory Spec2Isabelle
  imports Complex_Main "HOL-Library.Multiset" "HOL-Library.Sublist"
begin

section \<open>JavaScript values\<close>

text \<open>
  The server keeps its whole state in \<^verbatim>\<open>state.json\<close> and reads it back with
  \<^verbatim>\<open>JSON.parse\<close>, so the values the code handles are JSON values, \<^verbatim>\<open>undefined\<close>
  (the result of reading a property that does not exist) and members inherited from the
  built-in prototypes (\<open>JBuiltin\<close>: a function or prototype object, truthy and never
  equal to a string). Objects are association lists of their own properties in insertion
  order. A string is a list of characters, one per UTF-16 code unit.
\<close>

datatype jsval =
    JUndefined
  | JNull
  | JBool bool
  | JNum rat
  | JStr string
  | JArr "jsval list"
  | JObj "(string \<times> jsval) list"
  | JBuiltin string

datatype reason =
    KeyCountMismatch
  | ValueCountMismatch
  | NoGiftee string
  | SelfGift string
  | DuplicateGiftee

datatype error =
    TooFewNames
  | GenerationExhausted
  | Invalid reason
  | TypeError
  | ReadError
  | SyntaxError
  | WriteError

fun truthy :: "jsval \<Rightarrow> bool" where
  "truthy JUndefined = False"
| "truthy JNull = False"
| "truthy (JBool b) = b"
| "truthy (JNum r) = (r \<noteq> 0)"
| "truthy (JStr s) = (s \<noteq> [])"
| "truthy (JArr xs) = True"
| "truthy (JObj ps) = True"
| "truthy (JBuiltin k) = True"

fun is_prim :: "jsval \<Rightarrow> bool" where
  "is_prim (JArr xs) = False"
| "is_prim (JObj ps) = False"
| "is_prim (JBuiltin k) = False"
| "is_prim v = True"

text \<open>Canonical array-index property names: \<^verbatim>\<open>"0"\<close>, \<^verbatim>\<open>"1"\<close>, ...\<close>

definition digit_char :: "nat \<Rightarrow> char" where
  "digit_char d = ''0123456789'' ! d"

fun index_key :: "nat \<Rightarrow> string" where
  "index_key n = (if n < 10 then [digit_char n] else index_key (n div 10) @ [digit_char (n mod 10)])"

declare index_key.simps [simp del]

text \<open>
  Own enumerable string-keyed properties, as \<^verbatim>\<open>Object.keys\<close> and \<^verbatim>\<open>Object.values\<close>
  see them. Both throw a TypeError on \<^verbatim>\<open>undefined\<close> and \<^verbatim>\<open>null\<close>; booleans and
  numbers have none; a string has one per code unit and an array one per element.
  (\<^verbatim>\<open>Object.keys\<close> lists integer-like keys first; the code only uses the number of
  keys and the collection of values, which do not depend on that order.)
\<close>

fun own_props :: "jsval \<Rightarrow> error + (string \<times> jsval) list" where
  "own_props JUndefined = Inl TypeError"
| "own_props JNull = Inl TypeError"
| "own_props (JObj ps) = Inr ps"
| "own_props (JArr xs) = Inr (zip (map index_key [0..<length xs]) xs)"
| "own_props (JStr s) = Inr (zip (map index_key [0..<length s]) (map (\<lambda>c. JStr [c]) s))"
| "own_props v = Inr []"

definition Object_keys :: "jsval \<Rightarrow> error + string list" where
  "Object_keys v = (case own_props v of Inl e \<Rightarrow> Inl e | Inr ps \<Rightarrow> Inr (map fst ps))"

definition Object_values :: "jsval \<Rightarrow> error + jsval list" where
  "Object_values v = (case own_props v of Inl e \<Rightarrow> Inl e | Inr ps \<Rightarrow> Inr (map snd ps))"

text \<open>Property names every object inherits from \<^verbatim>\<open>Object.prototype\<close>.\<close>

definition object_proto_names :: "string list" where
  "object_proto_names =
    [''constructor'', ''__defineGetter__'', ''__defineSetter__'', ''hasOwnProperty'',
     ''__lookupGetter__'', ''__lookupSetter__'', ''isPrototypeOf'', ''propertyIsEnumerable'',
     ''toString'', ''valueOf'', ''__proto__'', ''toLocaleString'']"

definition array_proto_names :: "string list" where
  "array_proto_names =
    [''at'', ''concat'', ''copyWithin'', ''fill'', ''find'', ''findIndex'', ''findLast'',
     ''findLastIndex'', ''lastIndexOf'', ''pop'', ''push'', ''reverse'', ''shift'', ''unshift'',
     ''slice'', ''sort'', ''splice'', ''includes'', ''indexOf'', ''join'', ''keys'', ''entries'',
     ''values'', ''forEach'', ''filter'', ''flat'', ''flatMap'', ''map'', ''every'', ''some'',
     ''reduce'', ''reduceRight'', ''toReversed'', ''toSorted'', ''toSpliced'', ''with'']"

definition string_proto_names :: "string list" where
  "string_proto_names =
    [''anchor'', ''at'', ''big'', ''blink'', ''bold'', ''charAt'', ''charCodeAt'', ''codePointAt'',
     ''concat'', ''endsWith'', ''fontcolor'', ''fontsize'', ''fixed'', ''includes'', ''indexOf'',
     ''isWellFormed'', ''italics'', ''lastIndexOf'', ''link'', ''localeCompare'', ''match'',
     ''matchAll'', ''normalize'', ''padEnd'', ''padStart'', ''repeat'', ''replace'', ''replaceAll'',
     ''search'', ''slice'', ''small'', ''split'', ''strike'', ''sub'', ''substr'', ''substring'',
     ''sup'', ''startsWith'', ''toWellFormed'', ''trim'', ''trimStart'', ''trimLeft'', ''trimEnd'',
     ''trimRight'', ''toLocaleLowerCase'', ''toLocaleUpperCase'', ''toLowerCase'', ''toUpperCase'']"

definition number_proto_names :: "string list" where
  "number_proto_names = [''toExponential'', ''toFixed'', ''toPrecision'']"

text \<open>
  What the prototype chain gives for a key that is not an own property: the \<^verbatim>\<open>length\<close>
  of an array or string is a number, every other inherited member is a function or a
  prototype object, and a key that is not inherited at all reads as \<^verbatim>\<open>undefined\<close>.
\<close>

definition builtin_member :: "string list \<Rightarrow> string \<Rightarrow> jsval" where
  "builtin_member inherited_names k = (if k \<in> set inherited_names then JBuiltin k else JUndefined)"

fun inherited :: "jsval \<Rightarrow> string \<Rightarrow> jsval" where
  "inherited (JObj ps) k = builtin_member object_proto_names k"
| "inherited (JArr xs) k =
    (if k = ''length'' then JNum (of_nat (length xs))
     else builtin_member (array_proto_names @ object_proto_names) k)"
| "inherited (JStr s) k =
    (if k = ''length'' then JNum (of_nat (length s))
     else builtin_member (string_proto_names @ object_proto_names) k)"
| "inherited (JNum r) k = builtin_member (number_proto_names @ object_proto_names) k"
| "inherited (JBool b) k = builtin_member object_proto_names k"
| "inherited v k = JUndefined"

text \<open>
  The property read \<^verbatim>\<open>v[k]\<close>: an own property if there is one, otherwise what the
  prototype chain gives. (A read on \<^verbatim>\<open>undefined\<close> or \<^verbatim>\<open>null\<close> throws; every read in
  the source sits behind a truthiness test, or behind an \<^verbatim>\<open>Object.keys\<close> call that has
  thrown before.)
\<close>

definition get_prop :: "jsval \<Rightarrow> string \<Rightarrow> jsval" where
  "get_prop v k =
    (case own_props v of
       Inl e \<Rightarrow> JUndefined
     | Inr ps \<Rightarrow> (case map_of ps k of Some x \<Rightarrow> x | None \<Rightarrow> inherited v k))"

text \<open>
  The assignment \<^verbatim>\<open>obj[k] = v\<close> on a plain object: a new key is appended, an existing
  one is overwritten in place. The key \<^verbatim>\<open>__proto__\<close> is the inherited accessor: storing
  a string through it changes nothing. (A computed key in an object literal, in
  contrast, always defines an own property.)
\<close>

fun update_prop :: "string \<Rightarrow> jsval \<Rightarrow> (string \<times> jsval) list \<Rightarrow> (string \<times> jsval) list" where
  "update_prop k v [] = [(k, v)]"
| "update_prop k v (p # ps) = (if fst p = k then (k, v) # ps else p # update_prop k v ps)"

definition set_prop :: "(string \<times> jsval) list \<Rightarrow> string \<Rightarrow> jsval \<Rightarrow> (string \<times> jsval) list" where
  "set_prop ps k v = (if k = ''__proto__'' \<and> map_of ps k = None then ps else update_prop k v ps)"

text \<open>
  \<^verbatim>\<open>new Set(values).size\<close>: the number of values that differ under SameValueZero.
  Primitives are compared by value; two objects or arrays at different positions of a
  parsed JSON document are different references and never equal.
\<close>

definition Set_size :: "jsval list \<Rightarrow> nat" where
  "Set_size vs = length (remdups (filter is_prim vs)) + length (filter (\<lambda>v. \<not> is_prim v) vs)"

section \<open>The validator\<close>

text \<open>
  \<^verbatim>\<open>validateAssignments(assignments, names)\<close>, lines 106 to 132. The loop over the
  names tests each name for a missing giftee and then for a self-assignment before it
  moves to the next name.
\<close>

fun check_names :: "jsval \<Rightarrow> string list \<Rightarrow> error + unit" where
  "check_names assignments [] = Inr ()"
| "check_names assignments (name # rest) =
    (if \<not> truthy (get_prop assignments name) then Inl (Invalid (NoGiftee name))
     else if get_prop assignments name = JStr name then Inl (Invalid (SelfGift name))
     else check_names assignments rest)"

definition validateAssignments :: "jsval \<Rightarrow> string list \<Rightarrow> error + unit" where
  "validateAssignments assignments names =
    (case Object_keys assignments of
       Inl e \<Rightarrow> Inl e
     | Inr keys \<Rightarrow>
        if length keys \<noteq> length names then Inl (Invalid KeyCountMismatch)
        else
          (case Object_values assignments of
             Inl e \<Rightarrow> Inl e
           | Inr vals \<Rightarrow>
              if length vals \<noteq> length names then Inl (Invalid ValueCountMismatch)
              else
                (case check_names assignments names of
                   Inl e \<Rightarrow> Inl e
                 | Inr u \<Rightarrow>
                    if Set_size vals \<noteq> length vals then Inl (Invalid DuplicateGiftee)
                    else Inr ())))"

section \<open>The generator\<close>

text \<open>
  \<^verbatim>\<open>createDerangement(names)\<close>, lines 56 to 98. The random source is the sequence
  \<open>rnd 0, rnd 1, ...\<close> of the results of the successive calls of \<^verbatim>\<open>Math.random()\<close>,
  each a number in \<open>[0, 1)\<close>; \<open>k\<close> counts the calls made so far.
\<close>

definition unit_interval :: "(nat \<Rightarrow> rat) \<Rightarrow> bool" where
  "unit_interval rnd = (\<forall>k. 0 \<le> rnd k \<and> rnd k < 1)"

text \<open>
  The Fisher-Yates loop \<^verbatim>\<open>for (let i = perm.length - 1; i > 0; i--)\<close> with
  \<^verbatim>\<open>j = Math.floor(Math.random() * (i + 1))\<close> and the swap of \<^verbatim>\<open>perm[i]\<close> and
  \<^verbatim>\<open>perm[j]\<close>. On a source in the unit interval \<open>j \<le> i\<close>, so every read is in range.
\<close>

fun fisher_yates :: "(nat \<Rightarrow> rat) \<Rightarrow> nat \<Rightarrow> string list \<Rightarrow> nat \<Rightarrow> string list" where
  "fisher_yates rnd k perm 0 = perm"
| "fisher_yates rnd k perm (Suc i') =
    (let i = Suc i';
         j = nat \<lfloor>rnd k * (of_nat i + 1)\<rfloor>
     in fisher_yates rnd (Suc k) (perm[i := perm ! j, j := perm ! i]) i')"

text \<open>\<^verbatim>\<open>perm.some((name, index) => name === names[index])\<close>\<close>

definition has_fixed_point :: "string list \<Rightarrow> string list \<Rightarrow> bool" where
  "has_fixed_point perm names = list_ex (\<lambda>(name, other). name = other) (zip perm names)"

text \<open>
  The \<^verbatim>\<open>do ... while\<close> loop: \<open>attempts\<close> is the counter before the increment. The
  ceiling is tested after the shuffle and before the fixed-point test, so the shuffle of
  attempt 10001 is thrown away whatever it is.
\<close>

function attempt_loop :: "(nat \<Rightarrow> rat) \<Rightarrow> string list \<Rightarrow> nat \<Rightarrow> nat \<Rightarrow> error + string list" where
  "attempt_loop rnd names k attempts =
    (let attempts' = attempts + 1;
         perm = fisher_yates rnd k names (length names - 1)
     in if attempts' > 10000 then Inl GenerationExhausted
        else if has_fixed_point perm names
          then attempt_loop rnd names (k + (length names - 1)) attempts'
          else Inr perm)"
  by pat_completeness auto
termination
  by (relation "measure (\<lambda>(rnd, names, k, attempts). 10001 - attempts)") auto

declare attempt_loop.simps [simp del]

text \<open>
  The shuffle of the attempt with index \<open>a\<close>, counted from 0: the attempts before it
  have drawn \<open>a\<close> times \<open>n - 1\<close> random numbers.
\<close>

definition shuffle_at :: "(nat \<Rightarrow> rat) \<Rightarrow> string list \<Rightarrow> nat \<Rightarrow> string list" where
  "shuffle_at rnd names a =
    fisher_yates rnd (a * (length names - 1)) names (length names - 1)"

text \<open>\<^verbatim>\<open>for (let i = 0; i < n; i++) assignments[names[i]] = perm[i]\<close>\<close>

definition build_assignments :: "string list \<Rightarrow> string list \<Rightarrow> (string \<times> jsval) list" where
  "build_assignments names perm =
    fold (\<lambda>(name, giftee) obj. set_prop obj name (JStr giftee)) (zip names perm) []"

definition createDerangement :: "(nat \<Rightarrow> rat) \<Rightarrow> string list \<Rightarrow> error + jsval" where
  "createDerangement rnd names =
    (let n = length names in
     if n < 2 then Inl TooFewNames
     else if n = 2 then
       Inr (JObj (update_prop (names ! 1) (JStr (names ! 0)) [(names ! 0, JStr (names ! 1))]))
     else
       (case attempt_loop rnd names 0 0 of
          Inl e \<Rightarrow> Inl e
        | Inr perm \<Rightarrow>
           (let assignments = JObj (build_assignments names perm) in
            case validateAssignments assignments names of
              Inl e \<Rightarrow> Inl e
            | Inr u \<Rightarrow> Inr assignments)))"

text \<open>The fixed list of participants, lines 10 to 22.\<close>

definition NAMES :: "string list" where
  "NAMES = [''Anni'', ''Ben'', ''Beni'', ''Daniel'', ''Elisa'', ''Till'', ''Dustin'', ''Johann'',
            ''Lara'', ''Marvin'', ''Paul'']"

text \<open>
  The three properties of a valid assignment over \<open>names\<close>: every name is a key exactly
  once, every name is a value exactly once, and no key is mapped to itself.
\<close>

definition derangement_of :: "string list \<Rightarrow> jsval \<Rightarrow> bool" where
  "derangement_of names a =
    (case a of
       JObj ps \<Rightarrow>
         mset (map fst ps) = mset names \<and>
         mset (map snd ps) = mset (map JStr names) \<and>
         list_all (\<lambda>(giver, giftee). giftee \<noteq> JStr giver) ps
     | _ \<Rightarrow> False)"

section \<open>The state file\<close>

text \<open>
  \<^verbatim>\<open>state.json\<close> is absent (\<open>None\<close>), or it is there and either cannot be read or
  parsed (\<open>Garbled\<close>) or parses to a JSON value. \<^verbatim>\<open>saveState\<close> writes
  \<^verbatim>\<open>JSON.stringify(state)\<close>; every state the server writes is made of strings, arrays
  and objects that came from \<^verbatim>\<open>JSON.parse\<close> or from the generator, so reading the
  file back gives the value that was written. \<open>saveState\<close> is the write that succeeds;
  \<open>saveState_w\<close> below is the write that may fail.
\<close>

datatype state_file = Garbled | Json jsval

type_synonym disk = "state_file option"

definition existsSync :: "disk \<Rightarrow> bool" where
  "existsSync d = (d \<noteq> None)"

text \<open>\<^verbatim>\<open>JSON.parse(fs.readFileSync(STATE_FILE, "utf-8"))\<close>\<close>

definition read_and_parse :: "disk \<Rightarrow> error + jsval" where
  "read_and_parse d =
    (case d of
       None \<Rightarrow> Inl ReadError
     | Some Garbled \<Rightarrow> Inl SyntaxError
     | Some (Json v) \<Rightarrow> Inr v)"

text \<open>\<^verbatim>\<open>loadState()\<close>, lines 32 to 43; the \<^verbatim>\<open>catch\<close> turns every exception into \<^verbatim>\<open>null\<close>.\<close>

definition loadState :: "disk \<Rightarrow> error + jsval" where
  "loadState d =
    (if \<not> existsSync d then Inr JNull
     else (case read_and_parse d of Inl e \<Rightarrow> Inr JNull | Inr v \<Rightarrow> Inr v))"

definition saveState :: "jsval \<Rightarrow> disk" where
  "saveState state = Some (Json state)"

section \<open>Initialising the round\<close>

text \<open>
  \<^verbatim>\<open>initState(forceNew)\<close>, lines 140 to 169. The source builds and saves the new
  round in two places with the same five lines; \<open>new_round\<close> is that block. The
  generator may throw; then nothing has been written. The \<^verbatim>\<open>catch\<close> around the
  validation of a loaded state catches every exception.
\<close>

definition new_round :: "(nat \<Rightarrow> rat) \<Rightarrow> error + (jsval \<times> disk)" where
  "new_round rnd =
    (case createDerangement rnd NAMES of
       Inl e \<Rightarrow> Inl e
     | Inr assignments \<Rightarrow>
        (let state = JObj [(''names'', JArr (map JStr NAMES)),
                           (''assignments'', assignments),
                           (''revealed'', JArr [])]
         in Inr (state, saveState state)))"

definition initState :: "bool \<Rightarrow> (nat \<Rightarrow> rat) \<Rightarrow> disk \<Rightarrow> error + (jsval \<times> disk)" where
  "initState forceNew rnd d =
    (case (if forceNew then Inr JNull else loadState d) of
       Inl e \<Rightarrow> Inl e
     | Inr state \<Rightarrow>
        if \<not> truthy state \<or> \<not> truthy (get_prop state ''assignments'') then new_round rnd
        else
          (case validateAssignments (get_prop state ''assignments'') NAMES of
             Inl e \<Rightarrow> new_round rnd
           | Inr u \<Rightarrow> Inr (state, d)))"

subsection \<open>When the write fails\<close>

text \<open>
  \<^verbatim>\<open>fs.writeFileSync\<close> (line 46) throws when the file cannot be written, and neither
  \<^verbatim>\<open>saveState\<close> nor \<^verbatim>\<open>initState\<close> catches that. \<open>saveState_w\<close>, \<open>new_round_w\<close> and
  \<open>initState_w\<close> are \<open>saveState\<close>, the creating block and \<open>initState\<close> with the outcome
  of the write as their first parameter; the definitions above are the case of a
  successful write.
\<close>

definition saveState_w :: "bool \<Rightarrow> jsval \<Rightarrow> error + disk" where
  "saveState_w writable state = (if writable then Inr (Some (Json state)) else Inl WriteError)"

definition new_round_w :: "bool \<Rightarrow> (nat \<Rightarrow> rat) \<Rightarrow> error + (jsval \<times> disk)" where
  "new_round_w writable rnd =
    (case createDerangement rnd NAMES of
       Inl e \<Rightarrow> Inl e
     | Inr assignments \<Rightarrow>
        (let state = JObj [(''names'', JArr (map JStr NAMES)),
                           (''assignments'', assignments),
                           (''revealed'', JArr [])]
         in case saveState_w writable state of
              Inl e \<Rightarrow> Inl e
            | Inr d' \<Rightarrow> Inr (state, d')))"

definition initState_w ::
  "bool \<Rightarrow> bool \<Rightarrow> (nat \<Rightarrow> rat) \<Rightarrow> disk \<Rightarrow> error + (jsval \<times> disk)" where
  "initState_w writable forceNew rnd d =
    (case (if forceNew then Inr JNull else loadState d) of
       Inl e \<Rightarrow> Inl e
     | Inr state \<Rightarrow>
        if \<not> truthy state \<or> \<not> truthy (get_prop state ''assignments'')
        then new_round_w writable rnd
        else
          (case validateAssignments (get_prop state ''assignments'') NAMES of
             Inl e \<Rightarrow> new_round_w writable rnd
           | Inr u \<Rightarrow> Inr (state, d)))"

section \<open>The public state\<close>

text \<open>
  \<^verbatim>\<open>new Set(x)\<close> takes the elements of an array, the characters of a string and nothing
  from \<^verbatim>\<open>undefined\<close> or \<^verbatim>\<open>null\<close>; anything else is not iterable. \<^verbatim>\<open>has\<close> compares
  with SameValueZero: an object or array read from another place of the document is
  never found.
\<close>

fun Set_of :: "jsval \<Rightarrow> error + jsval list" where
  "Set_of JUndefined = Inr []"
| "Set_of JNull = Inr []"
| "Set_of (JArr xs) = Inr xs"
| "Set_of (JStr s) = Inr (map (\<lambda>c. JStr [c]) s)"
| "Set_of v = Inl TypeError"

definition Set_has :: "jsval list \<Rightarrow> jsval \<Rightarrow> bool" where
  "Set_has vs v = (is_prim v \<and> v \<in> set vs)"

text \<open>\<^verbatim>\<open>getPublicState()\<close>, lines 174 to 184; \<^verbatim>\<open>filter\<close> exists on arrays only.\<close>

definition getPublicState :: "(nat \<Rightarrow> rat) \<Rightarrow> disk \<Rightarrow> (error + jsval) \<times> disk" where
  "getPublicState rnd d =
    (case initState False rnd d of
       Inl e \<Rightarrow> (Inl e, d)
     | Inr (state, d') \<Rightarrow>
        (case Set_of (get_prop state ''revealed'') of
           Inl e \<Rightarrow> (Inl e, d')
         | Inr revealedSet \<Rightarrow>
            (case get_prop state ''names'' of
               JArr ns \<Rightarrow>
                 (Inr (JObj [(''names'', JArr ns),
                             (''availableNames'', JArr (filter (\<lambda>n. \<not> Set_has revealedSet n) ns)),
                             (''revealed'', get_prop state ''revealed'')]), d')
             | _ \<Rightarrow> (Inl TypeError, d'))))"

section \<open>The routes\<close>

text \<open>
  A handler answers with a status and a JSON body, or an exception escapes it (the draw
  route has no \<^verbatim>\<open>try\<close>). The German messages contain the letter u-umlaut, code unit
  252.
\<close>

datatype response = Reply nat jsval | Uncaught error

definition error_body :: "string \<Rightarrow> jsval" where
  "error_body msg = JObj [(''error'', JStr msg)]"

definition msg_invalid_name :: string where
  "msg_invalid_name = ''Ung'' @ [char_of (252::nat)] @ ''ltiger Name.''"

definition msg_no_assignment :: string where
  "msg_no_assignment = ''F'' @ [char_of (252::nat)] @ ''r diesen Namen gibt es keine Zuordnung.''"

definition msg_reset_done :: string where
  "msg_reset_done = ''Wichtel-Runde zur'' @ [char_of (252::nat)] @ ''ckgesetzt.''"

text \<open>\<^verbatim>\<open>app.get("/api/state", ...)\<close>, lines 189 to 197\<close>

definition state_handler :: "(nat \<Rightarrow> rat) \<Rightarrow> disk \<Rightarrow> response \<times> disk" where
  "state_handler rnd d =
    (case getPublicState rnd d of
       (Inl e, d') \<Rightarrow> (Reply 500 (error_body ''Fehler beim Laden des Zustands.''), d')
     | (Inr publicState, d') \<Rightarrow> (Reply 200 publicState, d'))"

text \<open>
  \<^verbatim>\<open>Array.prototype.includes\<close> on an array, \<^verbatim>\<open>String.prototype.includes\<close> (a
  substring test) on a string; no other JSON value has a callable \<^verbatim>\<open>includes\<close>. Only
  an array has \<^verbatim>\<open>push\<close>.
\<close>

fun js_includes :: "jsval \<Rightarrow> string \<Rightarrow> error + bool" where
  "js_includes (JArr xs) s = Inr (JStr s \<in> set xs)"
| "js_includes (JStr t) s = Inr (sublist s t)"
| "js_includes v s = Inl TypeError"

fun js_push :: "jsval \<Rightarrow> jsval \<Rightarrow> error + jsval" where
  "js_push (JArr xs) v = Inr (JArr (xs @ [v]))"
| "js_push w v = Inl TypeError"

text \<open>The state object after \<^verbatim>\<open>state.revealed.push(name)\<close> changed its array in place.\<close>

fun with_revealed :: "jsval \<Rightarrow> jsval \<Rightarrow> jsval" where
  "with_revealed (JObj ps) r = JObj (update_prop ''revealed'' r ps)"
| "with_revealed v r = v"

text \<open>
  \<^verbatim>\<open>app.post("/api/draw", ...)\<close>, lines 200 to 226; \<open>name\<close> is the \<^verbatim>\<open>name\<close> field of
  the request body, any JSON value or \<^verbatim>\<open>undefined\<close>. \<^verbatim>\<open>NAMES.includes(name)\<close> holds
  for the strings of the list only.
\<close>

definition draw_handler :: "jsval \<Rightarrow> (nat \<Rightarrow> rat) \<Rightarrow> disk \<Rightarrow> response \<times> disk" where
  "draw_handler name rnd d =
    (case name of
       JStr s \<Rightarrow>
        if \<not> truthy name \<or> s \<notin> set NAMES then (Reply 400 (error_body msg_invalid_name), d)
        else
          (case initState False rnd d of
             Inl e \<Rightarrow> (Uncaught e, d)
           | Inr (state, d') \<Rightarrow>
              if \<not> truthy (get_prop (get_prop state ''assignments'') s)
              then (Reply 400 (error_body msg_no_assignment), d')
              else
                (case js_includes (get_prop state ''revealed'') s of
                   Inl e \<Rightarrow> (Uncaught e, d')
                 | Inr alreadyRevealed \<Rightarrow>
                    (let giftee = get_prop (get_prop state ''assignments'') s;
                         body = JObj [(''name'', name), (''giftee'', giftee),
                                      (''alreadyRevealed'', JBool alreadyRevealed)]
                     in if \<not> alreadyRevealed then
                          (case js_push (get_prop state ''revealed'') name of
                             Inl e \<Rightarrow> (Uncaught e, d')
                           | Inr revealed' \<Rightarrow>
                              (Reply 200 body, saveState (with_revealed state revealed')))
                        else (Reply 200 body, d'))))
     | _ \<Rightarrow> (Reply 400 (error_body msg_invalid_name), d))"

text \<open>\<^verbatim>\<open>app.post("/api/reset", ...)\<close>, lines 229 to 237\<close>

definition reset_handler :: "(nat \<Rightarrow> rat) \<Rightarrow> disk \<Rightarrow> response \<times> disk" where
  "reset_handler rnd d =
    (case initState True rnd d of
       Inl e \<Rightarrow> (Reply 500 (error_body ''Fehler beim Reset.''), d)
     | Inr (state, d') \<Rightarrow>
        (Reply 200 (JObj [(''ok'', JBool True), (''message'', JStr msg_reset_done)]), d'))"

text \<open>\<^verbatim>\<open>app.get("/api/debug-assignments", ...)\<close>, lines 241 to 249\<close>

definition debug_handler :: "(nat \<Rightarrow> rat) \<Rightarrow> disk \<Rightarrow> response \<times> disk" where
  "debug_handler rnd d =
    (case initState False rnd d of
       Inl e \<Rightarrow> (Reply 500 (error_body ''Fehler beim Debug-Zugriff.''), d)
     | Inr (state, d') \<Rightarrow> (Reply 200 (get_prop state ''assignments''), d'))"

text \<open>
  A request, and a run of the server over a list of requests, each with the random
  numbers drawn while it is served.
\<close>

datatype request = GetState | Draw jsval | DebugAssignments | Reset

fun handle :: "request \<Rightarrow> (nat \<Rightarrow> rat) \<Rightarrow> disk \<Rightarrow> response \<times> disk" where
  "handle GetState rnd d = state_handler rnd d"
| "handle (Draw name) rnd d = draw_handler name rnd d"
| "handle DebugAssignments rnd d = debug_handler rnd d"
| "handle Reset rnd d = reset_handler rnd d"

fun run :: "(request \<times> (nat \<Rightarrow> rat)) list \<Rightarrow> disk \<Rightarrow> disk" where
  "run [] d = d"
| "run ((req, rnd) # rest) d = run rest (snd (handle req rnd d))"

section \<open>Rounds on disk\<close>

text \<open>The round built from an assignment by lines 146 to 150 (and again 159 to 163).\<close>

definition round_of :: "jsval \<Rightarrow> jsval" where
  "round_of assignments =
    JObj [(''names'', JArr (map JStr NAMES)), (''assignments'', assignments), (''revealed'', JArr [])]"

text \<open>
  The file holds a round that \<open>initState\<close> accepts: it parses and its \<^verbatim>\<open>assignments\<close>
  field passes the validator against \<open>NAMES\<close>.
\<close>

definition holds_round :: "disk \<Rightarrow> bool" where
  "holds_round d =
    (case d of
       Some (Json state) \<Rightarrow> validateAssignments (get_prop state ''assignments'') NAMES = Inr ()
     | _ \<Rightarrow> False)"

text \<open>The givers recorded in the file, when its \<^verbatim>\<open>revealed\<close> field is an array.\<close>

definition revealed_list :: "disk \<Rightarrow> jsval list" where
  "revealed_list d =
    (case d of
       Some (Json state) \<Rightarrow> (case get_prop state ''revealed'' of JArr xs \<Rightarrow> xs | _ \<Rightarrow> [])
     | _ \<Rightarrow> [])"

definition stored_assignments :: "disk \<Rightarrow> jsval" where
  "stored_assignments d =
    (case d of Some (Json state) \<Rightarrow> get_prop state ''assignments'' | _ \<Rightarrow> JUndefined)"

text \<open>The body of a successful draw, line 221.\<close>

definition draw_body :: "string \<Rightarrow> jsval \<Rightarrow> bool \<Rightarrow> jsval" where
  "draw_body s giftee alreadyRevealed =
    JObj [(''name'', JStr s), (''giftee'', giftee), (''alreadyRevealed'', JBool alreadyRevealed)]"

section \<open>Sample inputs\<close>

text \<open>
  Two random sources: one that always returns 0, so that every swap is with index 0 and
  the shuffle rotates the list by one place, and one that always returns 0.99, so that
  every swap is of an element with itself and the shuffle changes nothing.
\<close>

definition rnd_low :: "nat \<Rightarrow> rat" where
  "rnd_low k = 0"

definition rnd_high :: "nat \<Rightarrow> rat" where
  "rnd_high k = 99 / 100"

text \<open>
  A source that returns 0.99 for its first thirty numbers, the three first shuffles of the
  eleven names, and 0 from then on: three attempts fail and the fourth succeeds.
\<close>

definition rnd_late :: "nat \<Rightarrow> rat" where
  "rnd_late k = (if k < 30 then 99 / 100 else 0)"

definition sample_assignments :: jsval where
  "sample_assignments =
    JObj [(''Anni'', JStr ''Ben''), (''Ben'', JStr ''Beni''), (''Beni'', JStr ''Daniel''),
          (''Daniel'', JStr ''Elisa''), (''Elisa'', JStr ''Till''), (''Till'', JStr ''Dustin''),
          (''Dustin'', JStr ''Johann''), (''Johann'', JStr ''Lara''), (''Lara'', JStr ''Marvin''),
          (''Marvin'', JStr ''Paul''), (''Paul'', JStr ''Anni'')]"

text \<open>A stored record with a valid assignment, no \<^verbatim>\<open>names\<close> and a number for \<^verbatim>\<open>revealed\<close>.\<close>

definition odd_record :: jsval where
  "odd_record = JObj [(''assignments'', sample_assignments), (''revealed'', JNum 5)]"

text \<open>A round in which Ben has already drawn, and a run of requests against it.\<close>

definition started_round :: jsval where
  "started_round =
    JObj [(''names'', JArr (map JStr NAMES)), (''assignments'', sample_assignments),
          (''revealed'', JArr [JStr ''Ben''])]"

definition sample_requests :: "(request \<times> (nat \<Rightarrow> rat)) list" where
  "sample_requests =
    [(GetState, rnd_high), (Draw (JStr ''Anni''), rnd_high), (Draw (JStr ''Ben''), rnd_low),
     (DebugAssignments, rnd_low), (Draw (JStr ''Zorro''), rnd_low), (Draw (JStr ''Anni''), rnd_low)]"

text \<open>The fresh round after Anni has drawn, and two more draws by Anni.\<close>

definition anni_drawn :: jsval where
  "anni_drawn =
    JObj [(''names'', JArr (map JStr NAMES)), (''assignments'', sample_assignments),
          (''revealed'', JArr [JStr ''Anni''])]"

definition repeated_draws :: "(request \<times> (nat \<Rightarrow> rat)) list" where
  "repeated_draws = [(Draw (JStr ''Anni''), rnd_high), (Draw (JStr ''Anni''), rnd_low)]"

text \<open>The public state of a round in which nobody has drawn, and the body of a successful reset.\<close>

definition untouched_public_state :: jsval where
  "untouched_public_state =
    JObj [(''names'', JArr (map JStr NAMES)), (''availableNames'', JArr (map JStr NAMES)),
          (''revealed'', JArr [])]"

definition reset_body :: jsval where
  "reset_body = JObj [(''ok'', JBool True), (''message'', JStr msg_reset_done)]"

section \<open>The validator as the specification words it\<close>

text \<open>
  The five checks in the order of the specification: key count, value count, then every
  member has a giftee, then no member is its own giftee, then no giftee occurs twice.
  Here the third check is finished for all members before the fourth starts.
\<close>

definition validate_in_spec_order :: "jsval \<Rightarrow> string list \<Rightarrow> error + unit" where
  "validate_in_spec_order assignments names =
    (case Object_keys assignments of
       Inl e \<Rightarrow> Inl e
     | Inr keys \<Rightarrow>
        if length keys \<noteq> length names then Inl (Invalid KeyCountMismatch)
        else
          (case Object_values assignments of
             Inl e \<Rightarrow> Inl e
           | Inr vals \<Rightarrow>
              if length vals \<noteq> length names then Inl (Invalid ValueCountMismatch)
              else
                (case find (\<lambda>name. \<not> truthy (get_prop assignments name)) names of
                   Some name \<Rightarrow> Inl (Invalid (NoGiftee name))
                 | None \<Rightarrow>
                    (case find (\<lambda>name. get_prop assignments name = JStr name) names of
                       Some name \<Rightarrow> Inl (Invalid (SelfGift name))
                     | None \<Rightarrow>
                        if Set_size vals \<noteq> length vals then Inl (Invalid DuplicateGiftee)
                        else Inr ()))))"

text \<open>
  The same five checks with the third and fourth taken together member by member: the
  first member, in list order, that has no giftee or is its own giftee decides the reason.
\<close>

definition validate_by_member :: "jsval \<Rightarrow> string list \<Rightarrow> error + unit" where
  "validate_by_member assignments names =
    (case Object_keys assignments of
       Inl e \<Rightarrow> Inl e
     | Inr keys \<Rightarrow>
        if length keys \<noteq> length names then Inl (Invalid KeyCountMismatch)
        else
          (case Object_values assignments of
             Inl e \<Rightarrow> Inl e
           | Inr vals \<Rightarrow>
              if length vals \<noteq> length names then Inl (Invalid ValueCountMismatch)
              else
                (case find (\<lambda>name. \<not> truthy (get_prop assignments name) \<or>
                                     get_prop assignments name = JStr name) names of
                   Some name \<Rightarrow>
                     if \<not> truthy (get_prop assignments name) then Inl (Invalid (NoGiftee name))
                     else Inl (Invalid (SelfGift name))
                 | None \<Rightarrow>
                    if Set_size vals \<noteq> length vals then Inl (Invalid DuplicateGiftee)
                    else Inr ())))"

text \<open>The validator throws one of its own errors.\<close>

definition rejects :: "jsval \<Rightarrow> string list \<Rightarrow> bool" where
  "rejects assignments names =
    (case validateAssignments assignments names of Inl (Invalid r) \<Rightarrow> True | _ \<Rightarrow> False)"

text \<open>
  A stored assignment for the configured names in which Anni is her own giftee, Ben and
  Beni share a giftee and the key of Paul is replaced by a stranger who is his own
  giftee; and a two-entry mapping for a member list that contains the name
  \<^verbatim>\<open>toString\<close>.
\<close>

definition tampered_entries :: "(string \<times> jsval) list" where
  "tampered_entries =
    [(''Anni'', JStr ''Anni''), (''Ben'', JStr ''Lara''), (''Beni'', JStr ''Lara''),
     (''Daniel'', JStr ''Elisa''), (''Elisa'', JStr ''Till''), (''Till'', JStr ''Dustin''),
     (''Dustin'', JStr ''Johann''), (''Johann'', JStr ''Ben''), (''Lara'', JStr ''Marvin''),
     (''Marvin'', JStr ''Paul''), (''Zorro'', JStr ''Zorro'')]"

definition inherited_name_members :: "string list" where
  "inherited_name_members = [''toString'', ''b'']"

definition inherited_name_entries :: "(string \<times> jsval) list" where
  "inherited_name_entries = [(''b'', JStr ''q''), (''Z'', JStr ''Z'')]"

section \<open>The generator returns derangements\<close>

lemma floor_index_le:
  assumes "0 \<le> (r::rat)" "r < 1"
  shows "nat \<lfloor>r * (of_nat i + 1)\<rfloor> \<le> i"
proof -
  have "r * (of_nat i + 1) < of_nat i + 1"
    using assms by (simp add: mult_less_cancel_right2 add_pos_nonneg)
  then have "r * (of_nat i + 1) < of_int (int i + 1)"
    by simp
  then have "\<lfloor>r * (of_nat i + 1)\<rfloor> < int i + 1"
    by (simp only: floor_less_iff)
  then show ?thesis by linarith
qed

lemma fisher_yates_mset:
  assumes "unit_interval rnd"
  shows "i < length perm \<Longrightarrow> mset (fisher_yates rnd k perm i) = mset perm"
proof (induction i arbitrary: k perm)
  case 0
  then show ?case by simp
next
  case (Suc i)
  let ?j = "nat \<lfloor>rnd k * (of_nat (Suc i) + 1)\<rfloor>"
  have j: "?j \<le> Suc i"
    using assms floor_index_le[of "rnd k" "Suc i"] by (simp add: unit_interval_def)
  have "mset (perm[Suc i := perm ! ?j, ?j := perm ! Suc i]) = mset perm"
    using Suc.prems j by (simp add: mset_swap)
  moreover have "i < length (perm[Suc i := perm ! ?j, ?j := perm ! Suc i])"
    using Suc.prems by simp
  ultimately show ?case
    using Suc.IH[of "perm[Suc i := perm ! ?j, ?j := perm ! Suc i]" "Suc k"]
    by (simp add: Let_def)
qed

lemma fisher_yates_mset_names:
  assumes "unit_interval rnd"
  shows "mset (fisher_yates rnd k names (length names - 1)) = mset names"
proof (cases names)
  case Nil
  then show ?thesis by simp
next
  case (Cons x xs)
  then show ?thesis using fisher_yates_mset[OF assms, of "length names - 1" names k] by simp
qed

lemma attempt_loop_result:
  "unit_interval rnd \<Longrightarrow> attempt_loop rnd names k attempts = Inr perm \<Longrightarrow>
     mset perm = mset names \<and> \<not> has_fixed_point perm names"
proof (induction rnd names k attempts rule: attempt_loop.induct)
  case (1 rnd names k attempts)
  show ?case
    using "1.prems" "1.IH" fisher_yates_mset_names[OF "1.prems"(1), of k names]
    by (subst (asm) attempt_loop.simps) (auto simp: Let_def split: if_splits)
qed

lemma update_prop_fresh:
  "k \<notin> fst ` set ps \<Longrightarrow> update_prop k v ps = ps @ [(k, v)]"
  by (induction ps) auto

lemma update_prop_keys:
  "set (map fst (update_prop k v ps)) = insert k (set (map fst ps))"
  by (induction ps) auto

lemma update_prop_distinct:
  "distinct (map fst ps) \<Longrightarrow> distinct (map fst (update_prop k v ps))"
proof (induction ps)
  case Nil
  then show ?case by simp
next
  case (Cons p ps)
  then show ?case
    using update_prop_keys[of k v ps] by (cases "fst p = k") auto
qed

lemma fold_set_prop_fresh:
  "distinct names \<Longrightarrow> ''__proto__'' \<notin> set names \<Longrightarrow> set names \<inter> fst ` set acc = {} \<Longrightarrow>
   length perm = length names \<Longrightarrow>
   fold (\<lambda>(name, giftee) obj. set_prop obj name (JStr giftee)) (zip names perm) acc =
     acc @ zip names (map JStr perm)"
proof (induction names arbitrary: perm acc)
  case Nil
  then show ?case by simp
next
  case (Cons n ns)
  then obtain p ps where perm: "perm = p # ps" by (cases perm) auto
  have "n \<noteq> ''__proto__''" "n \<notin> fst ` set acc"
    using Cons.prems by auto
  then have step: "set_prop acc n (JStr p) = acc @ [(n, JStr p)]"
    by (simp add: set_prop_def update_prop_fresh)
  have "set ns \<inter> fst ` set (acc @ [(n, JStr p)]) = {}"
    using Cons.prems by auto
  then show ?case
    using Cons.IH[of "acc @ [(n, JStr p)]" ps] Cons.prems perm step by simp
qed

lemma build_assignments_fresh:
  "distinct names \<Longrightarrow> ''__proto__'' \<notin> set names \<Longrightarrow> length perm = length names \<Longrightarrow>
   build_assignments names perm = zip names (map JStr perm)"
  using fold_set_prop_fresh[of names "[]" perm] by (simp add: build_assignments_def)

lemma fold_set_prop_keys:
  "distinct (map fst acc) \<Longrightarrow> ''__proto__'' \<notin> fst ` set acc \<Longrightarrow>
   distinct (map fst (fold (\<lambda>(name, giftee) obj. set_prop obj name (JStr giftee)) zs acc)) \<and>
   fst ` set (fold (\<lambda>(name, giftee) obj. set_prop obj name (JStr giftee)) zs acc)
     \<subseteq> fst ` set acc \<union> (fst ` set zs - {''__proto__''})"
proof (induction zs arbitrary: acc)
  case Nil
  then show ?case by simp
next
  case (Cons z zs)
  obtain n p where z: "z = (n, p)" by (cases z)
  let ?acc = "set_prop acc n (JStr p)"
  have d: "distinct (map fst ?acc)"
    using Cons.prems by (simp add: set_prop_def update_prop_distinct)
  have k: "fst ` set ?acc \<subseteq> fst ` set acc \<union> ({n} - {''__proto__''})"
    using Cons.prems update_prop_keys[of n "JStr p" acc]
    by (auto simp: set_prop_def map_of_eq_None_iff)
  have np: "''__proto__'' \<notin> fst ` set ?acc"
    using k Cons.prems by auto
  have "fst ` set (z # zs) = insert n (fst ` set zs)"
    using z by simp
  moreover have "fold (\<lambda>(name, giftee) obj. set_prop obj name (JStr giftee)) (z # zs) acc =
      fold (\<lambda>(name, giftee) obj. set_prop obj name (JStr giftee)) zs ?acc"
    using z by simp
  ultimately show ?case
    using Cons.IH[OF d np] k by (simp only:) blast
qed

lemma build_assignments_proto_short:
  assumes "distinct names" "''__proto__'' \<in> set names"
  shows "length (build_assignments names perm) < length names"
proof -
  let ?ps = "build_assignments names perm"
  have d: "distinct (map fst ?ps)"
    and s: "fst ` set ?ps \<subseteq> fst ` set (zip names perm) - {''__proto__''}"
    using fold_set_prop_keys[of "[]" "zip names perm"] by (simp_all add: build_assignments_def)
  have "fst ` set (zip names perm) \<subseteq> set names"
    by (auto dest: set_zip_leftD)
  then have sub: "set (map fst ?ps) \<subseteq> set names - {''__proto__''}"
    using s by (simp only: set_map) blast
  have "length ?ps = card (set (map fst ?ps))"
    using d distinct_card[of "map fst ?ps"] by simp
  also have "\<dots> \<le> card (set names - {''__proto__''})"
    using sub by (intro card_mono) auto
  also have "\<dots> < card (set names)"
    using assms by (intro psubset_card_mono) auto
  also have "\<dots> = length names"
    using assms distinct_card by auto
  finally show ?thesis .
qed

lemma validate_key_count:
  "validateAssignments (JObj ps) names = Inr u \<Longrightarrow> length ps = length names"
  by (auto simp: validateAssignments_def Object_keys_def split: if_splits)

lemma no_fixed_point_zip:
  assumes "\<not> has_fixed_point perm names"
  shows "list_all (\<lambda>(giver, giftee). giftee \<noteq> JStr giver) (zip names (map JStr perm))"
proof -
  have "\<And>k v. (k, v) \<in> set (zip names (map JStr perm)) \<Longrightarrow> v \<noteq> JStr k"
  proof
    fix k v assume kv: "(k, v) \<in> set (zip names (map JStr perm))" and eq: "v = JStr k"
    then obtain i where i: "i < length names" "i < length perm" "names ! i = k" "JStr (perm ! i) = v"
      by (auto simp: in_set_zip)
    then have "(perm ! i, names ! i) \<in> set (zip perm names)"
      by (auto simp: in_set_zip)
    moreover have "perm ! i = names ! i" using i eq by simp
    ultimately show False
      using assms by (auto simp: has_fixed_point_def list_ex_iff)
  qed
  then show ?thesis by (auto simp: list_all_iff)
qed

lemma createDerangement_sound:
  assumes rnd: "unit_interval rnd" and d: "distinct names"
    and ret: "createDerangement rnd names = Inr a"
  shows "derangement_of names a"
proof -
  have "\<not> length names < 2"
    using ret by (auto simp: createDerangement_def Let_def)
  then consider (two) "length names = 2" | (more) "2 < length names"
    by linarith
  then show ?thesis
  proof cases
    case two
    then obtain x y where xy: "names = [x, y]"
      by (cases names; cases "tl names"; cases "tl (tl names)") auto
    with d ret show ?thesis
      by (auto simp: createDerangement_def derangement_of_def)
  next
    case more
    from ret more obtain perm where
      loop: "attempt_loop rnd names 0 0 = Inr perm"
      and a: "a = JObj (build_assignments names perm)"
      and v: "validateAssignments (JObj (build_assignments names perm)) names = Inr ()"
      by (auto simp: createDerangement_def Let_def split: sum.splits)
    from attempt_loop_result[OF rnd loop]
    have m: "mset perm = mset names" and nf: "\<not> has_fixed_point perm names" by auto
    have len: "length perm = length names"
      using m by (metis size_mset)
    have "''__proto__'' \<notin> set names"
      using validate_key_count[OF v] build_assignments_proto_short[OF d, of perm] by auto
    then have b: "build_assignments names perm = zip names (map JStr perm)"
      using build_assignments_fresh d len by simp
    have "mset (map snd (zip names (map JStr perm))) = mset (map JStr names)"
      using len m by (metis length_map map_snd_zip mset_map)
    then show ?thesis
      using a b len no_fixed_point_zip[OF nf] by (simp add: derangement_of_def)
  qed
qed

lemma rnd_low_unit: "unit_interval rnd_low"
  by (simp add: unit_interval_def rnd_low_def)

lemma distinct_NAMES: "distinct NAMES"
  by (simp add: NAMES_def)

lemma createDerangement_rnd_low: "createDerangement rnd_low NAMES = Inr sample_assignments"
  by code_simp

text \<open>
  C1. For every list of at least two distinct names and every random source, if
  \<open>createDerangement\<close> returns an assignment then every name is a key of it exactly
  once, every name is a value of it exactly once, and no key is mapped to itself.
\<close>

theorem createDerangement_derangement:
  assumes "unit_interval rnd" and "distinct names" and "2 \<le> length names"
    and "createDerangement rnd names = Inr a"
  shows "derangement_of names a"
  using assms createDerangement_sound by blast

theorem createDerangement_derangement_witness:
  "unit_interval rnd_low \<and> distinct NAMES \<and> 2 \<le> length NAMES \<and>
   createDerangement rnd_low NAMES = Inr sample_assignments \<and>
   derangement_of NAMES sample_assignments"
proof -
  have l: "2 \<le> length NAMES" by (simp add: NAMES_def)
  show ?thesis
    using rnd_low_unit distinct_NAMES l createDerangement_rnd_low
      createDerangement_derangement[OF rnd_low_unit distinct_NAMES l createDerangement_rnd_low]
    by simp
qed

section \<open>What \<open>initState\<close> returns\<close>

lemma check_names_Inr:
  "check_names a names = Inr u \<longleftrightarrow>
     (\<forall>n \<in> set names. truthy (get_prop a n) \<and> get_prop a n \<noteq> JStr n)"
  by (induction names) auto

lemma validate_check_names:
  "validateAssignments a names = Inr u \<Longrightarrow> check_names a names = Inr ()"
  by (auto simp: validateAssignments_def split: sum.splits if_splits)

lemma validate_truthy_member:
  "validateAssignments a names = Inr u \<Longrightarrow> n \<in> set names \<Longrightarrow> truthy (get_prop a n)"
  using validate_check_names[of a names u] check_names_Inr[of a names "()"] by blast

lemma length_NAMES: "length NAMES = 11"
  by (simp add: NAMES_def)

lemma validate_NAMES_truthy:
  "validateAssignments a NAMES = Inr u \<Longrightarrow> truthy a"
  by (cases a)
    (auto simp: validateAssignments_def Object_keys_def length_NAMES split: if_splits)

lemma get_prop_assignments_truthy:
  "truthy (get_prop state ''assignments'') \<Longrightarrow> truthy state"
  by (cases state)
    (auto simp: get_prop_def builtin_member_def object_proto_names_def number_proto_names_def
      string_proto_names_def split: if_splits)

lemma createDerangement_NAMES_validated:
  "createDerangement rnd NAMES = Inr a \<Longrightarrow> validateAssignments a NAMES = Inr ()"
  by (auto simp: createDerangement_def Let_def length_NAMES split: sum.splits)

lemma initState_validated:
  assumes "initState forceNew rnd d = Inr (state, d')"
  shows "validateAssignments (get_prop state ''assignments'') NAMES = Inr ()"
proof -
  have nr: "validateAssignments (get_prop st ''assignments'') NAMES = Inr ()"
    if "new_round rnd = Inr (st, e)" for st e
    using that createDerangement_NAMES_validated[of rnd]
    by (auto simp: new_round_def Let_def get_prop_def split: sum.splits)
  show ?thesis
    using assms nr
    by (auto simp: initState_def split: sum.splits if_splits)
qed

lemma initState_accepts:
  assumes "validateAssignments (get_prop state ''assignments'') NAMES = Inr ()"
  shows "initState False rnd (Some (Json state)) = Inr (state, Some (Json state))"
proof -
  have "truthy (get_prop state ''assignments'')"
    using assms validate_NAMES_truthy by blast
  moreover from this have "truthy state"
    by (rule get_prop_assignments_truthy)
  ultimately show ?thesis
    using assms
    by (simp add: initState_def loadState_def existsSync_def read_and_parse_def)
qed

lemma msgs_differ: "error_body msg_no_assignment \<noteq> error_body msg_invalid_name"
  by (simp add: error_body_def msg_no_assignment_def msg_invalid_name_def)

lemma validate_sample: "validateAssignments sample_assignments NAMES = Inr ()"
  by code_simp

lemma initState_rnd_low:
  "initState False rnd_low None =
     Inr (round_of sample_assignments, Some (Json (round_of sample_assignments)))"
  by code_simp

text \<open>
  C6. A draw for a name that is not in the configured list is answered with status 400
  and the invalid-name message, whatever the state file holds and whatever the random
  source; the file is not touched.
\<close>

theorem draw_handler_invalid_member:
  assumes "name \<notin> JStr ` set NAMES"
  shows "draw_handler name rnd d = (Reply 400 (error_body msg_invalid_name), d)"
  using assms by (cases name) (auto simp: draw_handler_def)

theorem draw_handler_invalid_member_witness:
  "JStr ''Zorro'' \<notin> JStr ` set NAMES \<and>
   draw_handler (JStr ''Zorro'') rnd_low (Some (Json odd_record)) =
     (Reply 400 (error_body msg_invalid_name), Some (Json odd_record))"
proof -
  have h: "JStr ''Zorro'' \<notin> JStr ` set NAMES"
    by (simp add: NAMES_def)
  show ?thesis
    using h draw_handler_invalid_member[OF h, of rnd_low "Some (Json odd_record)"] by simp
qed

text \<open>
  C9. Every round that \<open>initState\<close> returns maps every configured name to a truthy
  giftee, so the test of line 209 never fires: no draw is answered with the
  missing-assignment message.
\<close>

theorem assignment_missing_unreachable:
  assumes "initState forceNew rnd d = Inr (state, d')" and "name \<in> set NAMES"
  shows "truthy (get_prop (get_prop state ''assignments'') name) \<and>
         draw_handler req rnd d \<noteq> (Reply 400 (error_body msg_no_assignment), d'')"
proof
  show "truthy (get_prop (get_prop state ''assignments'') name)"
    using assms initState_validated validate_truthy_member by blast
next
  show "draw_handler req rnd d \<noteq> (Reply 400 (error_body msg_no_assignment), d'')"
  proof (cases req)
    case (JStr s)
    show ?thesis
    proof (cases "s \<in> set NAMES \<and> s \<noteq> []")
      case False
      then show ?thesis using JStr msgs_differ by (auto simp: draw_handler_def)
    next
      case True
      show ?thesis
      proof (cases "initState False rnd d")
        case (Inl e)
        then show ?thesis using JStr True by (simp add: draw_handler_def)
      next
        case (Inr r)
        obtain st d1 where r: "r = (st, d1)" by (cases r)
        have "truthy (get_prop (get_prop st ''assignments'') s)"
          using Inr r True initState_validated validate_truthy_member by blast
        then show ?thesis
          using JStr True Inr r
          by (auto simp: draw_handler_def Let_def split: sum.splits)
      qed
    qed
  qed (use msgs_differ in \<open>auto simp: draw_handler_def\<close>)
qed

theorem assignment_missing_unreachable_witness:
  "initState False rnd_low None =
     Inr (round_of sample_assignments, Some (Json (round_of sample_assignments))) \<and>
   ''Anni'' \<in> set NAMES \<and>
   truthy (get_prop (get_prop (round_of sample_assignments) ''assignments'') ''Anni'') \<and>
   draw_handler (JStr ''Anni'') rnd_low None \<noteq> (Reply 400 (error_body msg_no_assignment), None)"
proof -
  have n: "''Anni'' \<in> set NAMES"
    by (simp add: NAMES_def)
  show ?thesis
    using initState_rnd_low n
      assignment_missing_unreachable[OF initState_rnd_low n, of "JStr ''Anni''" None]
    by simp
qed

text \<open>
  C10. Of a stored record \<open>initState\<close> checks the \<^verbatim>\<open>assignments\<close> field only: when that
  field passes the validator against \<open>NAMES\<close>, the record is returned as it is and the
  file is left as it is, whatever its \<^verbatim>\<open>names\<close> and \<^verbatim>\<open>revealed\<close> fields are.
\<close>

theorem initState_keeps_validated_record:
  assumes "validateAssignments (get_prop state ''assignments'') NAMES = Inr ()"
  shows "initState False rnd (Some (Json state)) = Inr (state, Some (Json state))"
  using assms by (rule initState_accepts)

theorem initState_keeps_validated_record_witness:
  "validateAssignments (get_prop odd_record ''assignments'') NAMES = Inr () \<and>
   get_prop odd_record ''names'' = JUndefined \<and>
   get_prop odd_record ''revealed'' = JNum 5 \<and>
   initState False rnd_high (Some (Json odd_record)) = Inr (odd_record, Some (Json odd_record))"
proof -
  have v: "validateAssignments (get_prop odd_record ''assignments'') NAMES = Inr ()"
    by code_simp
  have n: "get_prop odd_record ''names'' = JUndefined"
    by code_simp
  have r: "get_prop odd_record ''revealed'' = JNum 5"
    by code_simp
  show ?thesis
    using v n r initState_keeps_validated_record[OF v, of rnd_high] by simp
qed

section \<open>Rounds that stay on disk\<close>

lemma map_of_update_prop:
  "map_of (update_prop k v ps) k' = (if k' = k then Some v else map_of ps k')"
  by (induction ps) auto

lemma get_prop_with_revealed_other:
  "k \<noteq> ''revealed'' \<Longrightarrow> get_prop (with_revealed (JObj ps) r) k = get_prop (JObj ps) k"
  by (simp add: get_prop_def map_of_update_prop split: option.split)

lemma get_prop_with_revealed:
  "get_prop (with_revealed (JObj ps) r) ''revealed'' = r"
  by (simp add: get_prop_def map_of_update_prop)

lemma digit_char_cases:
  "d < 10 \<Longrightarrow> digit_char d \<in> set ''0123456789''"
  unfolding digit_char_def by (rule nth_mem) simp

lemma index_key_digits: "set (index_key n) \<subseteq> set ''0123456789''"
proof (induction n rule: index_key.induct)
  case (1 n)
  show ?case
  proof (cases "n < 10")
    case True
    then show ?thesis
      using digit_char_cases[of n] by (subst index_key.simps) simp
  next
    case False
    have "n mod 10 < 10" by simp
    then show ?thesis
      using False "1.IH" digit_char_cases[of "n mod 10"]
      by (subst index_key.simps) simp
  qed
qed

lemma index_key_ne:
  assumes "\<exists>c \<in> set k. c \<notin> set ''0123456789''"
  shows "index_key n \<noteq> k"
  using assms index_key_digits[of n] by auto

lemma map_of_index_keys_None:
  assumes "\<exists>c \<in> set k. c \<notin> set ''0123456789''"
  shows "map_of (zip (map index_key ns) vs) k = None"
proof -
  have "k \<notin> set (map index_key ns)"
    using index_key_ne[OF assms] by auto
  then have "k \<notin> fst ` set (zip (map index_key ns) vs)"
    by (metis (no_types, lifting) imageE prod.collapse set_zip_leftD)
  then show ?thesis
    by (simp add: map_of_eq_None_iff)
qed

lemma get_prop_JStr_non_index:
  assumes "\<exists>c \<in> set k. c \<notin> set ''0123456789''"
  shows "get_prop (JStr s) k = inherited (JStr s) k"
proof -
  have m: "map_of (zip (map index_key [0..<length s]) (map (\<lambda>c. JStr [c]) s)) k = None"
    using assms by (rule map_of_index_keys_None)
  show ?thesis
    by (simp only: get_prop_def own_props.simps sum.case m option.case)
qed

lemma get_prop_JArr_non_index:
  assumes "\<exists>c \<in> set k. c \<notin> set ''0123456789''"
  shows "get_prop (JArr xs) k = inherited (JArr xs) k"
proof -
  have m: "map_of (zip (map index_key [0..<length xs]) xs) k = None"
    using assms by (rule map_of_index_keys_None)
  show ?thesis
    by (simp only: get_prop_def own_props.simps sum.case m option.case)
qed

lemma truthy_assignments_object:
  assumes "truthy (get_prop state ''assignments'')"
  shows "\<exists>ps. state = JObj ps"
proof (cases state)
  case (JStr s)
  have "get_prop (JStr s) ''assignments'' = inherited (JStr s) ''assignments''"
    by (rule get_prop_JStr_non_index) simp
  then show ?thesis
    using assms JStr
    by (simp add: builtin_member_def string_proto_names_def object_proto_names_def)
next
  case (JArr xs)
  have "get_prop (JArr xs) ''assignments'' = inherited (JArr xs) ''assignments''"
    by (rule get_prop_JArr_non_index) simp
  then show ?thesis
    using assms JArr
    by (simp add: builtin_member_def array_proto_names_def object_proto_names_def)
qed (use assms in \<open>auto simp: get_prop_def builtin_member_def object_proto_names_def
      number_proto_names_def\<close>)

lemma initState_persisted:
  assumes "initState False rnd d = Inr (state, d')"
  shows "d' = Some (Json state)"
proof -
  have nr: "e = Some (Json st)" if "new_round rnd = Inr (st, e)" for st e
    using that by (auto simp: new_round_def Let_def saveState_def split: sum.splits)
  show ?thesis
    using assms nr
    by (auto simp: initState_def loadState_def existsSync_def read_and_parse_def
        split: sum.splits if_splits option.splits state_file.splits)
qed

lemma initState_holds_round:
  assumes "initState False rnd d = Inr (state, d')"
  shows "holds_round d'"
  using initState_persisted[OF assms] initState_validated[OF assms]
  by (simp add: holds_round_def)

lemma holds_roundE:
  assumes "holds_round d"
  obtains ps where "d = Some (Json (JObj ps))"
    and "validateAssignments (get_prop (JObj ps) ''assignments'') NAMES = Inr ()"
    and "initState False rnd d = Inr (JObj ps, d)"
proof -
  from assms obtain state where d: "d = Some (Json state)"
    and v: "validateAssignments (get_prop state ''assignments'') NAMES = Inr ()"
    by (auto simp: holds_round_def split: option.splits state_file.splits)
  from v have "truthy (get_prop state ''assignments'')"
    by (rule validate_NAMES_truthy)
  then obtain ps where "state = JObj ps"
    using truthy_assignments_object by blast
  then show ?thesis
    using that d v initState_accepts[OF v, of rnd] by simp
qed

lemma NAMES_nonempty: "s \<in> set NAMES \<Longrightarrow> s \<noteq> []"
  by (auto simp: NAMES_def)

lemma draw_on_round:
  assumes init: "initState False rnd d = Inr (JObj ps, d0)"
    and s: "s \<in> set NAMES"
    and r: "get_prop (JObj ps) ''revealed'' = JArr xs"
  shows "draw_handler (JStr s) rnd d =
    (Reply 200 (draw_body s (get_prop (get_prop (JObj ps) ''assignments'') s) (JStr s \<in> set xs)),
     if JStr s \<in> set xs then d0
     else Some (Json (with_revealed (JObj ps) (JArr (xs @ [JStr s])))))"
proof -
  have t: "truthy (get_prop (get_prop (JObj ps) ''assignments'') s)"
    using initState_validated[OF init] validate_truthy_member s by blast
  show ?thesis
    using init s r t NAMES_nonempty[OF s]
    by (simp add: draw_handler_def Let_def draw_body_def saveState_def)
qed

lemma handle_GetState_disk:
  "holds_round d \<Longrightarrow> snd (state_handler rnd d) = d"
  by (erule holds_roundE[where rnd = rnd])
    (auto simp: state_handler_def getPublicState_def split: sum.splits jsval.splits)

lemma handle_Debug_disk:
  "holds_round d \<Longrightarrow> snd (debug_handler rnd d) = d"
  by (erule holds_roundE[where rnd = rnd]) (auto simp: debug_handler_def)

lemma draw_disk_cases:
  assumes "holds_round d"
  shows "snd (draw_handler name rnd d) = d \<or>
    (\<exists>ps xs. d = Some (Json (JObj ps)) \<and> get_prop (JObj ps) ''revealed'' = JArr xs \<and>
       snd (draw_handler name rnd d) = Some (Json (with_revealed (JObj ps) (JArr (xs @ [name])))))"
proof -
  from assms obtain ps where d: "d = Some (Json (JObj ps))"
    and init: "initState False rnd d = Inr (JObj ps, d)"
    by (rule holds_roundE)
  show ?thesis
  proof (cases name)
    case (JStr s)
    show ?thesis
    proof (cases "get_prop (JObj ps) ''revealed''")
      case (JArr xs)
      then show ?thesis
        using JStr d init
        by (auto simp: draw_handler_def Let_def saveState_def split: if_splits)
    qed (use JStr d init in \<open>auto simp: draw_handler_def Let_def split: if_splits\<close>)
  qed (auto simp: draw_handler_def)
qed

lemma with_revealed_holds:
  assumes "holds_round (Some (Json (JObj ps)))"
  shows "holds_round (Some (Json (with_revealed (JObj ps) r)))"
  using assms get_prop_with_revealed_other[of "''assignments''" ps r]
  by (simp add: holds_round_def del: with_revealed.simps)

lemma handle_step:
  assumes h: "holds_round d" and nr: "req \<noteq> Reset"
  shows "holds_round (snd (handle req rnd d)) \<and>
         prefix (revealed_list d) (revealed_list (snd (handle req rnd d))) \<and>
         stored_assignments (snd (handle req rnd d)) = stored_assignments d"
proof (cases req)
  case GetState
  then show ?thesis using h handle_GetState_disk[OF h] by simp
next
  case DebugAssignments
  then show ?thesis using h handle_Debug_disk[OF h] by simp
next
  case Reset
  then show ?thesis using nr by simp
next
  case (Draw name)
  from draw_disk_cases[OF h, of name rnd]
  show ?thesis
  proof
    assume "snd (draw_handler name rnd d) = d"
    then show ?thesis using Draw h by simp
  next
    assume "\<exists>ps xs. d = Some (Json (JObj ps)) \<and> get_prop (JObj ps) ''revealed'' = JArr xs \<and>
       snd (draw_handler name rnd d) = Some (Json (with_revealed (JObj ps) (JArr (xs @ [name]))))"
    then obtain ps xs where d: "d = Some (Json (JObj ps))"
      and r: "get_prop (JObj ps) ''revealed'' = JArr xs"
      and e: "snd (draw_handler name rnd d) = Some (Json (with_revealed (JObj ps) (JArr (xs @ [name]))))"
      by blast
    have 1: "holds_round (snd (handle req rnd d))"
      using Draw e h d with_revealed_holds by simp
    have 2: "revealed_list (snd (handle req rnd d)) = xs @ [name]"
      using Draw e get_prop_with_revealed[of ps "JArr (xs @ [name])"]
      by (simp add: revealed_list_def del: with_revealed.simps)
    have 3: "revealed_list d = xs"
      using d r by (simp add: revealed_list_def)
    have 4: "stored_assignments (snd (handle req rnd d)) = stored_assignments d"
      using Draw e d get_prop_with_revealed_other[of "''assignments''" ps "JArr (xs @ [name])"]
      by (simp add: stored_assignments_def del: with_revealed.simps)
    show ?thesis using 1 2 3 4 by simp
  qed
qed

lemma run_monotone:
  "holds_round d \<Longrightarrow> list_all (\<lambda>(req, rnd). req \<noteq> Reset) ops \<Longrightarrow>
     holds_round (run ops d) \<and>
     prefix (revealed_list d) (revealed_list (run ops d)) \<and>
     stored_assignments (run ops d) = stored_assignments d"
proof (induction ops arbitrary: d)
  case Nil
  then show ?case by simp
next
  case (Cons op ops)
  obtain req rnd where op: "op = (req, rnd)" by (cases op)
  have nr: "req \<noteq> Reset" and rest: "list_all (\<lambda>(req, rnd). req \<noteq> Reset) ops"
    using Cons.prems(2) op by auto
  note st = handle_step[OF Cons.prems(1) nr, of rnd]
  from st have h: "holds_round (snd (handle req rnd d))" by simp
  from Cons.IH[OF h rest] st show ?case
    using op by (auto intro: prefix_order.trans)
qed

lemma filter_available:
  "filter (\<lambda>n. \<not> Set_has rs n) (map JStr ms) = map JStr (filter (\<lambda>m. JStr m \<notin> set rs) ms)"
  by (induction ms) (auto simp: Set_has_def)

text \<open>
  C7. For every round whose \<^verbatim>\<open>names\<close> field is an array of strings and whose
  \<^verbatim>\<open>revealed\<close> field is an array, the state route answers with exactly the three
  fields \<^verbatim>\<open>names\<close>, \<^verbatim>\<open>availableNames\<close> and \<^verbatim>\<open>revealed\<close>, where the available
  names are the names that are not in the revealed list, in the order of the name list.
  The assignment is not part of the answer.
\<close>

theorem public_state_projection:
  assumes "initState False rnd d = Inr (state, d')"
    and "get_prop state ''names'' = JArr (map JStr ms)"
    and "get_prop state ''revealed'' = JArr rs"
  shows "state_handler rnd d =
      (Reply 200 (JObj [(''names'', JArr (map JStr ms)),
                        (''availableNames'', JArr (map JStr (filter (\<lambda>m. JStr m \<notin> set rs) ms))),
                        (''revealed'', JArr rs)]), d')"
  using assms by (simp add: state_handler_def getPublicState_def filter_available)

lemma started_round_holds: "holds_round (Some (Json started_round))"
  by code_simp

lemma initState_started:
  "initState False rnd (Some (Json started_round)) = Inr (started_round, Some (Json started_round))"
  using started_round_holds by (auto simp: holds_round_def intro: initState_accepts)

theorem public_state_projection_witness:
  "initState False rnd_high (Some (Json started_round)) = Inr (started_round, Some (Json started_round)) \<and>
   get_prop started_round ''names'' = JArr (map JStr NAMES) \<and>
   get_prop started_round ''revealed'' = JArr [JStr ''Ben''] \<and>
   state_handler rnd_high (Some (Json started_round)) =
      (Reply 200 (JObj [(''names'', JArr (map JStr NAMES)),
                        (''availableNames'', JArr (map JStr [''Anni'', ''Beni'', ''Daniel'', ''Elisa'',
                            ''Till'', ''Dustin'', ''Johann'', ''Lara'', ''Marvin'', ''Paul''])),
                        (''revealed'', JArr [JStr ''Ben''])]), Some (Json started_round))"
proof -
  have n: "get_prop started_round ''names'' = JArr (map JStr NAMES)"
    by code_simp
  have r: "get_prop started_round ''revealed'' = JArr [JStr ''Ben'']"
    by code_simp
  have f: "filter (\<lambda>m. JStr m \<notin> set [JStr ''Ben'']) NAMES =
      [''Anni'', ''Beni'', ''Daniel'', ''Elisa'', ''Till'', ''Dustin'', ''Johann'', ''Lara'',
       ''Marvin'', ''Paul'']"
    by (simp add: NAMES_def)
  show ?thesis
    using n r f initState_started[of rnd_high]
      public_state_projection[OF initState_started n r, of rnd_high]
    by simp
qed

text \<open>
  C8. While the file holds a round that \<open>initState\<close> accepts, no run of state reads,
  draws and debug reads (every request but a reset) replaces the round or removes a
  giver: the file keeps holding an accepted round with the same assignment, and the old
  revealed list is a prefix of the new one.
\<close>

theorem revealed_monotone:
  assumes "holds_round d" and "list_all (\<lambda>(req, rnd). req \<noteq> Reset) ops"
  shows "holds_round (run ops d) \<and>
         prefix (revealed_list d) (revealed_list (run ops d)) \<and>
         set (revealed_list d) \<subseteq> set (revealed_list (run ops d)) \<and>
         stored_assignments (run ops d) = stored_assignments d"
  using run_monotone[OF assms] by (auto dest: set_mono_prefix)

theorem revealed_monotone_witness:
  "holds_round (Some (Json started_round)) \<and>
   list_all (\<lambda>(req, rnd). req \<noteq> Reset) sample_requests \<and>
   revealed_list (Some (Json started_round)) = [JStr ''Ben''] \<and>
   revealed_list (run sample_requests (Some (Json started_round))) = [JStr ''Ben'', JStr ''Anni''] \<and>
   set (revealed_list (Some (Json started_round)))
     \<subseteq> set (revealed_list (run sample_requests (Some (Json started_round))))"
proof -
  have l: "list_all (\<lambda>(req, rnd). req \<noteq> Reset) sample_requests"
    by (simp add: sample_requests_def)
  have a: "revealed_list (Some (Json started_round)) = [JStr ''Ben'']"
    by code_simp
  have b: "revealed_list (run sample_requests (Some (Json started_round))) = [JStr ''Ben'', JStr ''Anni'']"
    by code_simp
  show ?thesis
    using started_round_holds l a b revealed_monotone[OF started_round_holds l] by simp
qed

lemma draw_again_fixed:
  assumes h: "holds_round (Some (Json (JObj ps)))"
    and r: "get_prop (JObj ps) ''revealed'' = JArr xs"
    and s: "s \<in> set NAMES" and m: "JStr s \<in> set xs"
  shows "draw_handler (JStr s) rnd (Some (Json (JObj ps))) =
    (Reply 200 (draw_body s (get_prop (get_prop (JObj ps) ''assignments'') s) True),
     Some (Json (JObj ps)))"
proof -
  have "initState False rnd (Some (Json (JObj ps))) = Inr (JObj ps, Some (Json (JObj ps)))"
    using h by (auto simp: holds_round_def intro: initState_accepts)
  from draw_on_round[OF this s r] m show ?thesis by simp
qed

lemma run_draws_fixed:
  assumes fixed: "\<And>rnd. draw_handler name rnd d = (reply, d)"
  shows "list_all (\<lambda>(req, rnd). req = Draw name) ops \<Longrightarrow> run ops d = d"
proof (induction ops)
  case Nil
  then show ?case by simp
next
  case (Cons op ops)
  then show ?case using fixed by (cases op) auto
qed

text \<open>
  C3. For a configured name \<open>s\<close> and a round whose revealed list is \<open>xs\<close>: the draw
  returns the giftee of \<open>s\<close> and reports \<open>alreadyRevealed\<close> exactly when \<open>s\<close> is in
  \<open>xs\<close> (so a first draw reports false), and the list becomes \<open>xs\<close> with \<open>s\<close>
  appended once if it was missing. Every later draw for \<open>s\<close> returns the same giftee
  with \<open>alreadyRevealed\<close> true and leaves the file as it is, so any number of repeated
  draws adds nothing more.
\<close>

theorem reveal_idempotent:
  assumes init: "initState False rnd d = Inr (state, d0)"
    and s: "s \<in> set NAMES"
    and r: "get_prop state ''revealed'' = JArr xs"
    and first: "draw_handler (JStr s) rnd d = (reply, d1)"
    and again: "list_all (\<lambda>(req, rnd'). req = Draw (JStr s)) ops"
  shows "reply = Reply 200 (draw_body s (get_prop (get_prop state ''assignments'') s) (JStr s \<in> set xs)) \<and>
         truthy (get_prop (get_prop state ''assignments'') s) \<and>
         revealed_list d1 = (if JStr s \<in> set xs then xs else xs @ [JStr s]) \<and>
         draw_handler (JStr s) rnd' d1 =
           (Reply 200 (draw_body s (get_prop (get_prop state ''assignments'') s) True), d1) \<and>
         run ops d1 = d1"
proof -
  have v: "validateAssignments (get_prop state ''assignments'') NAMES = Inr ()"
    using init by (rule initState_validated)
  then obtain ps where ps: "state = JObj ps"
    using validate_NAMES_truthy truthy_assignments_object by blast
  have d0: "d0 = Some (Json (JObj ps))"
    using initState_persisted[OF init] ps by simp
  have h0: "holds_round (Some (Json (JObj ps)))"
    using v ps by (simp add: holds_round_def)
  let ?g = "get_prop (get_prop (JObj ps) ''assignments'') s"
  let ?st1 = "with_revealed (JObj ps) (JArr (xs @ [JStr s]))"
  have t: "truthy ?g"
    using v ps s validate_truthy_member by blast
  note one = draw_on_round[OF init[unfolded ps] s r[unfolded ps]]
  have reply: "reply = Reply 200 (draw_body s ?g (JStr s \<in> set xs))"
    using one first by simp
  have d1: "d1 = (if JStr s \<in> set xs then d0 else Some (Json ?st1))"
    using one first by simp
  have fixed: "draw_handler (JStr s) rnd'' d1 = (Reply 200 (draw_body s ?g True), d1)" for rnd''
  proof (cases "JStr s \<in> set xs")
    case True
    then show ?thesis
      using d1 d0 draw_again_fixed[OF h0 r[unfolded ps] s True, of rnd''] by simp
  next
    case False
    obtain qs where qs: "?st1 = JObj qs" by simp
    have h1: "holds_round (Some (Json (JObj qs)))"
      using with_revealed_holds[OF h0, of "JArr (xs @ [JStr s])"] qs by simp
    have r1: "get_prop (JObj qs) ''revealed'' = JArr (xs @ [JStr s])"
      using get_prop_with_revealed[of ps "JArr (xs @ [JStr s])"] qs by simp
    have g1: "get_prop (get_prop (JObj qs) ''assignments'') s = ?g"
      using get_prop_with_revealed_other[of "''assignments''" ps "JArr (xs @ [JStr s])"] qs by simp
    have "JStr s \<in> set (xs @ [JStr s])" by simp
    from draw_again_fixed[OF h1 r1 s this, of rnd''] show ?thesis
      using d1 False qs g1 by simp
  qed
  have rl: "revealed_list d1 = (if JStr s \<in> set xs then xs else xs @ [JStr s])"
    using d1 d0 r[unfolded ps] get_prop_with_revealed[of ps "JArr (xs @ [JStr s])"]
    by (simp add: revealed_list_def del: with_revealed.simps)
  have "run ops d1 = d1"
    using run_draws_fixed[of "JStr s" d1 _ ops] fixed again by blast
  then show ?thesis
    using reply t rl fixed[of rnd'] ps by simp
qed

theorem reveal_idempotent_witness:
  "initState False rnd_low None =
     Inr (round_of sample_assignments, Some (Json (round_of sample_assignments))) \<and>
   ''Anni'' \<in> set NAMES \<and>
   get_prop (round_of sample_assignments) ''revealed'' = JArr [] \<and>
   draw_handler (JStr ''Anni'') rnd_low None =
     (Reply 200 (draw_body ''Anni'' (JStr ''Ben'') False), Some (Json anni_drawn)) \<and>
   list_all (\<lambda>(req, rnd'). req = Draw (JStr ''Anni'')) repeated_draws \<and>
   revealed_list (Some (Json anni_drawn)) = [JStr ''Anni''] \<and>
   draw_handler (JStr ''Anni'') rnd_high (Some (Json anni_drawn)) =
     (Reply 200 (draw_body ''Anni'' (JStr ''Ben'') True), Some (Json anni_drawn)) \<and>
   run repeated_draws (Some (Json anni_drawn)) = Some (Json anni_drawn)"
proof -
  have n: "''Anni'' \<in> set NAMES"
    by (simp add: NAMES_def)
  have r: "get_prop (round_of sample_assignments) ''revealed'' = JArr []"
    by code_simp
  have f: "draw_handler (JStr ''Anni'') rnd_low None =
     (Reply 200 (draw_body ''Anni'' (JStr ''Ben'') False), Some (Json anni_drawn))"
    by code_simp
  have l: "list_all (\<lambda>(req, rnd'). req = Draw (JStr ''Anni'')) repeated_draws"
    by (simp add: repeated_draws_def)
  have g: "get_prop (get_prop (round_of sample_assignments) ''assignments'') ''Anni'' = JStr ''Ben''"
    by code_simp
  note T = reveal_idempotent[OF initState_rnd_low n r f l, of rnd_high, unfolded g]
  have e: "(if JStr ''Anni'' \<in> set [] then [] else [] @ [JStr ''Anni'']) = [JStr ''Anni'']"
    by simp
  from T have 1: "revealed_list (Some (Json anni_drawn)) = [JStr ''Anni'']"
    unfolding e by (elim conjE)
  from T have 2: "draw_handler (JStr ''Anni'') rnd_high (Some (Json anni_drawn)) =
     (Reply 200 (draw_body ''Anni'' (JStr ''Ben'') True), Some (Json anni_drawn))"
    by (elim conjE)
  from T have 3: "run repeated_draws (Some (Json anni_drawn)) = Some (Json anni_drawn)"
    by (elim conjE)
  show ?thesis
    by (intro conjI initState_rnd_low n r f l 1 2 3)
qed

section \<open>New rounds\<close>

lemma new_round_fresh:
  assumes "unit_interval rnd" and "new_round rnd = Inr (state, d')"
  shows "state = round_of (get_prop state ''assignments'') \<and>
         createDerangement rnd NAMES = Inr (get_prop state ''assignments'') \<and>
         derangement_of NAMES (get_prop state ''assignments'') \<and>
         d' = saveState state"
proof -
  from assms(2) obtain a where a: "createDerangement rnd NAMES = Inr a"
    and st: "state = round_of a" and d': "d' = saveState state"
    by (auto simp: new_round_def round_of_def Let_def split: sum.splits)
  have g: "get_prop state ''assignments'' = a"
    using st by (simp add: round_of_def get_prop_def)
  show ?thesis
    using createDerangement_sound[OF assms(1) distinct_NAMES a] a st d' g by simp
qed

lemma initState_regenerates:
  assumes "forceNew \<or> \<not> holds_round d"
  shows "initState forceNew rnd d = new_round rnd"
proof (cases forceNew)
  case True
  then show ?thesis by (simp add: initState_def)
next
  case False
  with assms have nh: "\<not> holds_round d" by simp
  show ?thesis
  proof (cases d)
    case None
    then show ?thesis using False
      by (simp add: initState_def loadState_def existsSync_def)
  next
    case (Some f)
    show ?thesis
    proof (cases f)
      case Garbled
      then show ?thesis using False Some
        by (simp add: initState_def loadState_def existsSync_def read_and_parse_def)
    next
      case (Json state)
      then have "validateAssignments (get_prop state ''assignments'') NAMES \<noteq> Inr ()"
        using nh Some by (simp add: holds_round_def)
      then show ?thesis using False Some Json
        by (auto simp: initState_def loadState_def existsSync_def read_and_parse_def
            split: sum.splits)
    qed
  qed
qed

lemma untouched_public_state:
  assumes "validateAssignments a NAMES = Inr ()"
  shows "state_handler rnd (saveState (round_of a)) =
           (Reply 200 untouched_public_state, saveState (round_of a))"
proof -
  have g: "get_prop (round_of a) ''assignments'' = a"
    by (simp add: round_of_def get_prop_def)
  have i: "initState False rnd (Some (Json (round_of a))) = Inr (round_of a, Some (Json (round_of a)))"
    using assms g by (auto intro: initState_accepts)
  have n: "get_prop (round_of a) ''names'' = JArr (map JStr NAMES)"
    by (simp add: round_of_def get_prop_def)
  have r: "get_prop (round_of a) ''revealed'' = JArr []"
    by (simp add: round_of_def get_prop_def)
  have f: "filter (\<lambda>n. \<not> Set_has [] n) (map JStr NAMES) = map JStr NAMES"
    by (simp add: Set_has_def)
  show ?thesis
    using i n r f
    by (simp add: state_handler_def getPublicState_def saveState_def untouched_public_state_def)
qed

lemma regenerated_round:
  assumes rnd: "unit_interval rnd" and new: "forceNew \<or> \<not> holds_round d"
    and init: "initState forceNew rnd d = Inr (state, d')"
  shows "state = round_of (get_prop state ''assignments'') \<and>
         createDerangement rnd NAMES = Inr (get_prop state ''assignments'') \<and>
         derangement_of NAMES (get_prop state ''assignments'') \<and>
         d' = saveState state \<and>
         revealed_list d' = [] \<and>
         state_handler rnd' d' = (Reply 200 untouched_public_state, d')"
proof -
  have nr: "new_round rnd = Inr (state, d')"
    using initState_regenerates[OF new, of rnd] init by simp
  note f = new_round_fresh[OF rnd nr]
  have v: "validateAssignments (get_prop state ''assignments'') NAMES = Inr ()"
    using init by (rule initState_validated)
  have "revealed_list (saveState (round_of (get_prop state ''assignments''))) = []"
    by (simp add: revealed_list_def saveState_def round_of_def get_prop_def)
  then show ?thesis
    using f untouched_public_state[OF v, of rnd'] by simp
qed

text \<open>
  C5. When \<open>initState\<close> creates a round (\<open>forceNew\<close> is set, or the file holds no round
  that it accepts) and returns, the round is the configured name list, the assignment
  that the generator has just returned for this call's random numbers, which is a
  derangement of the names, and an empty revealed list; and that round is what the file
  holds afterwards. In particular, after a reset that answered 200 the file holds the
  assignment generated during that reset, the revealed list is empty and the state route
  reports every name as available.
\<close>

theorem new_round_properties:
  assumes "unit_interval rnd"
  shows "((forceNew \<or> \<not> holds_round d) \<and> initState forceNew rnd d = Inr (state, d') \<longrightarrow>
            state = round_of (get_prop state ''assignments'') \<and>
            createDerangement rnd NAMES = Inr (get_prop state ''assignments'') \<and>
            derangement_of NAMES (get_prop state ''assignments'') \<and>
            d' = saveState state) \<and>
         (reset_handler rnd d = (Reply 200 body, e) \<longrightarrow>
            createDerangement rnd NAMES = Inr (stored_assignments e) \<and>
            derangement_of NAMES (stored_assignments e) \<and>
            revealed_list e = [] \<and>
            state_handler rnd' e = (Reply 200 untouched_public_state, e))"
proof (intro conjI impI)
  assume a: "(forceNew \<or> \<not> holds_round d) \<and> initState forceNew rnd d = Inr (state, d')"
  then have r: "state = round_of (get_prop state ''assignments'') \<and>
         createDerangement rnd NAMES = Inr (get_prop state ''assignments'') \<and>
         derangement_of NAMES (get_prop state ''assignments'') \<and>
         d' = saveState state \<and>
         revealed_list d' = [] \<and>
         state_handler rnd' d' = (Reply 200 untouched_public_state, d')"
    using regenerated_round[OF assms, of forceNew d state d' rnd'] by blast
  from r show "state = round_of (get_prop state ''assignments'')" by blast
  from r show "createDerangement rnd NAMES = Inr (get_prop state ''assignments'')" by blast
  from r show "derangement_of NAMES (get_prop state ''assignments'')" by blast
  from r show "d' = saveState state" by blast
next
  assume b: "reset_handler rnd d = (Reply 200 body, e)"
  then obtain st where i: "initState True rnd d = Inr (st, e)"
    by (auto simp: reset_handler_def split: sum.splits)
  have r: "st = round_of (get_prop st ''assignments'') \<and>
         createDerangement rnd NAMES = Inr (get_prop st ''assignments'') \<and>
         derangement_of NAMES (get_prop st ''assignments'') \<and>
         e = saveState st \<and>
         revealed_list e = [] \<and>
         state_handler rnd' e = (Reply 200 untouched_public_state, e)"
    using regenerated_round[OF assms _ i, of rnd'] by blast
  then have s: "stored_assignments e = get_prop st ''assignments''"
    by (simp add: stored_assignments_def saveState_def)
  from r s show "createDerangement rnd NAMES = Inr (stored_assignments e)" by simp
  from r s show "derangement_of NAMES (stored_assignments e)" by simp
  from r show "revealed_list e = []" by blast
  from r show "state_handler rnd' e = (Reply 200 untouched_public_state, e)" by blast
qed

theorem new_round_properties_witness:
  "unit_interval rnd_low \<and>
   (True \<or> \<not> holds_round (Some (Json started_round))) \<and>
   initState True rnd_low (Some (Json started_round)) =
     Inr (round_of sample_assignments, Some (Json (round_of sample_assignments))) \<and>
   reset_handler rnd_low (Some (Json started_round)) =
     (Reply 200 reset_body, Some (Json (round_of sample_assignments))) \<and>
   createDerangement rnd_low NAMES = Inr (get_prop (round_of sample_assignments) ''assignments'') \<and>
   createDerangement rnd_low NAMES =
     Inr (stored_assignments (Some (Json (round_of sample_assignments)))) \<and>
   derangement_of NAMES (get_prop (round_of sample_assignments) ''assignments'') \<and>
   derangement_of NAMES (stored_assignments (Some (Json (round_of sample_assignments)))) \<and>
   revealed_list (Some (Json (round_of sample_assignments))) = [] \<and>
   state_handler rnd_high (Some (Json (round_of sample_assignments))) =
     (Reply 200 untouched_public_state, Some (Json (round_of sample_assignments)))"
proof -
  have i: "initState True rnd_low (Some (Json started_round)) =
     Inr (round_of sample_assignments, Some (Json (round_of sample_assignments)))"
    by code_simp
  have h: "reset_handler rnd_low (Some (Json started_round)) =
     (Reply 200 reset_body, Some (Json (round_of sample_assignments)))"
    by code_simp
  note T = new_round_properties[OF rnd_low_unit, of True "Some (Json started_round)"
      "round_of sample_assignments" "Some (Json (round_of sample_assignments))"
      reset_body "Some (Json (round_of sample_assignments))" rnd_high]
  from T i have 1: "derangement_of NAMES (get_prop (round_of sample_assignments) ''assignments'')"
    by blast
  from T h have 2: "derangement_of NAMES (stored_assignments (Some (Json (round_of sample_assignments))))"
    by blast
  from T h have 3: "revealed_list (Some (Json (round_of sample_assignments))) = []"
    by blast
  from T h have 4: "state_handler rnd_high (Some (Json (round_of sample_assignments))) =
     (Reply 200 untouched_public_state, Some (Json (round_of sample_assignments)))"
    by blast
  from T i have 5: "createDerangement rnd_low NAMES =
     Inr (get_prop (round_of sample_assignments) ''assignments'')"
    by blast
  from T h have 6: "createDerangement rnd_low NAMES =
     Inr (stored_assignments (Some (Json (round_of sample_assignments))))"
    by blast
  show ?thesis
    by (intro conjI rnd_low_unit disjI1 TrueI i h 1 2 3 4 5 6)
qed

section \<open>Self-healing\<close>

lemma check_names_zip:
  assumes d: "distinct names" and len: "length perm = length names"
    and ne: "[] \<notin> set perm" and nf: "\<not> has_fixed_point perm names"
  shows "check_names (JObj (zip names (map JStr perm))) names = Inr ()"
proof -
  have "truthy (get_prop (JObj (zip names (map JStr perm))) n) \<and>
        get_prop (JObj (zip names (map JStr perm))) n \<noteq> JStr n" if n: "n \<in> set names" for n
  proof -
    from n obtain i where i: "i < length names" "names ! i = n"
      by (auto simp: in_set_conv_nth)
    have m: "map_of (zip names (map JStr perm)) n = Some (JStr (perm ! i))"
      using i d len map_of_zip_nth[of names "map JStr perm" i] by simp
    have g: "get_prop (JObj (zip names (map JStr perm))) n = JStr (perm ! i)"
      using m by (simp add: get_prop_def)
    have "perm ! i \<in> set perm"
      using i len by simp
    then have t: "perm ! i \<noteq> []"
      using ne by metis
    have "(perm ! i, names ! i) \<in> set (zip perm names)"
      using i len by (auto simp: in_set_zip)
    then have "perm ! i \<noteq> names ! i"
      using nf by (auto simp: has_fixed_point_def list_ex_iff)
    then show ?thesis
      using g t i by simp
  qed
  then show ?thesis
    using check_names_Inr[of "JObj (zip names (map JStr perm))" names "()"] by blast
qed

lemma Set_size_strings:
  assumes "distinct perm"
  shows "Set_size (map JStr perm) = length perm"
proof -
  have "distinct (map JStr perm)"
    using assms by (simp add: distinct_map inj_on_def)
  then have r: "remdups (map JStr perm) = map JStr perm"
    by (rule distinct_remdups_id)
  have f1: "filter is_prim (map JStr perm) = map JStr perm"
    by (induction perm) auto
  have f2: "filter (\<lambda>v. \<not> is_prim v) (map JStr perm) = []"
    by (induction perm) auto
  show ?thesis
    unfolding Set_size_def f1 f2 r by simp
qed

lemma validate_generated:
  assumes d: "distinct names" and m: "mset perm = mset names"
    and ne: "[] \<notin> set names" and nf: "\<not> has_fixed_point perm names"
  shows "validateAssignments (JObj (zip names (map JStr perm))) names = Inr ()"
proof -
  have len: "length perm = length names"
    using m by (metis size_mset)
  have sp: "set perm = set names"
    using m by (metis set_mset_mset)
  have dp: "distinct perm"
    using d m by (metis mset_eq_imp_distinct_iff)
  have c: "check_names (JObj (zip names (map JStr perm))) names = Inr ()"
    using check_names_zip[OF d len _ nf] ne sp by simp
  show ?thesis
    using len c Set_size_strings[OF dp]
    by (simp add: validateAssignments_def Object_keys_def Object_values_def)
qed

lemma attempt_loop_error:
  "attempt_loop rnd names k attempts = Inl e \<Longrightarrow> e = GenerationExhausted"
proof (induction rnd names k attempts rule: attempt_loop.induct)
  case (1 rnd names k attempts)
  show ?case
    using "1.prems" "1.IH"
    by (subst (asm) attempt_loop.simps) (auto simp: Let_def split: if_splits)
qed

lemma createDerangement_NAMES_error:
  assumes rnd: "unit_interval rnd" and e: "createDerangement rnd NAMES = Inl e"
  shows "e = GenerationExhausted"
proof (cases "attempt_loop rnd NAMES 0 0")
  case (Inl e')
  then show ?thesis
    using e attempt_loop_error[OF Inl] by (simp add: createDerangement_def Let_def length_NAMES)
next
  case (Inr perm)
  from attempt_loop_result[OF rnd Inr]
  have m: "mset perm = mset NAMES" and nf: "\<not> has_fixed_point perm NAMES" by auto
  have len: "length perm = length NAMES"
    using m by (metis size_mset)
  have np: "''__proto__'' \<notin> set NAMES" and ne: "[] \<notin> set NAMES"
    by (simp_all add: NAMES_def)
  have b: "build_assignments NAMES perm = zip NAMES (map JStr perm)"
    using build_assignments_fresh[OF distinct_NAMES np len] .
  have "validateAssignments (JObj (build_assignments NAMES perm)) NAMES = Inr ()"
    unfolding b using validate_generated[OF distinct_NAMES m ne nf] .
  then show ?thesis
    using e Inr by (simp add: createDerangement_def Let_def length_NAMES)
qed

lemma loadState_total:
  "loadState d = Inr (case d of Some (Json v) \<Rightarrow> v | _ \<Rightarrow> JNull)"
  by (simp add: loadState_def existsSync_def read_and_parse_def
      split: option.splits state_file.splits)


lemma attempt_loop_first_success:
  assumes a: "a < 10000"
    and ok: "\<not> has_fixed_point (shuffle_at rnd names a) names"
    and before: "\<forall>b<a. has_fixed_point (shuffle_at rnd names b) names"
  shows "c \<le> a \<Longrightarrow>
    attempt_loop rnd names (c * (length names - 1)) c = Inr (shuffle_at rnd names a)"
proof (induction "a - c" arbitrary: c)
  case 0
  then have "c = a" by simp
  then show ?case
    using a ok by (subst attempt_loop.simps) (simp add: Let_def shuffle_at_def)
next
  case (Suc m)
  then have lt: "c < a" by simp
  then have fp: "has_fixed_point (shuffle_at rnd names c) names"
    using before by blast
  have "c * m + m = (c + 1) * m" for m :: nat
    by simp
  then have step: "c * (length names - 1) + (length names - 1) = (c + 1) * (length names - 1)" .
  have "attempt_loop rnd names ((c + 1) * (length names - 1)) (c + 1) = Inr (shuffle_at rnd names a)"
    using Suc.hyps(1)[of "c + 1"] Suc.hyps(2) lt by simp
  then show ?case
    using a lt fp step
    by (subst attempt_loop.simps) (simp add: Let_def shuffle_at_def del: One_nat_def)
qed

lemma attempt_loop_all_fail:
  assumes "\<forall>b<10000. has_fixed_point (shuffle_at rnd names b) names"
  shows "c \<le> 10000 \<Longrightarrow>
    attempt_loop rnd names (c * (length names - 1)) c = Inl GenerationExhausted"
proof (induction "10000 - c" arbitrary: c)
  case 0
  then have "c = 10000" by simp
  then show ?case
    by (subst attempt_loop.simps) (simp add: Let_def)
next
  case (Suc m)
  then have lt: "c < 10000" by simp
  then have fp: "has_fixed_point (shuffle_at rnd names c) names"
    using assms by blast
  have "c * m + m = (c + 1) * m" for m :: nat
    by simp
  then have step: "c * (length names - 1) + (length names - 1) = (c + 1) * (length names - 1)" .
  have "attempt_loop rnd names ((c + 1) * (length names - 1)) (c + 1) = Inl GenerationExhausted"
    using Suc.hyps(1)[of "c + 1"] Suc.hyps(2) lt by simp
  then show ?case
    using lt fp step
    by (subst attempt_loop.simps) (simp add: Let_def shuffle_at_def del: One_nat_def)
qed

lemma createDerangement_first_success:
  assumes rnd: "unit_interval rnd" and a: "a < 10000"
    and ok: "\<not> has_fixed_point (shuffle_at rnd NAMES a) NAMES"
    and before: "\<forall>b<a. has_fixed_point (shuffle_at rnd NAMES b) NAMES"
  shows "createDerangement rnd NAMES = Inr (JObj (build_assignments NAMES (shuffle_at rnd NAMES a)))"
proof -
  let ?perm = "shuffle_at rnd NAMES a"
  have loop: "attempt_loop rnd NAMES 0 0 = Inr ?perm"
    using attempt_loop_first_success[OF a ok before, of 0] by simp
  from attempt_loop_result[OF rnd loop] have m: "mset ?perm = mset NAMES" by simp
  have len: "length ?perm = length NAMES"
    using m by (metis size_mset)
  have np: "''__proto__'' \<notin> set NAMES" and ne: "[] \<notin> set NAMES"
    by (simp_all add: NAMES_def)
  have b: "build_assignments NAMES ?perm = zip NAMES (map JStr ?perm)"
    using build_assignments_fresh[OF distinct_NAMES np len] .
  have "validateAssignments (JObj (build_assignments NAMES ?perm)) NAMES = Inr ()"
    unfolding b using validate_generated[OF distinct_NAMES m ne ok] .
  then show ?thesis
    using loop by (simp add: createDerangement_def Let_def length_NAMES)
qed

lemma createDerangement_all_fail:
  assumes "\<forall>b<10000. has_fixed_point (shuffle_at rnd NAMES b) NAMES"
  shows "createDerangement rnd NAMES = Inl GenerationExhausted"
  using attempt_loop_all_fail[OF assms, of 0]
  by (simp add: createDerangement_def Let_def length_NAMES)

lemma new_round_w_True: "new_round_w True rnd = new_round rnd"
  by (simp add: new_round_w_def new_round_def saveState_w_def saveState_def Let_def
      split: sum.splits)

lemma initState_w_True: "initState_w True forceNew rnd d = initState forceNew rnd d"
  by (simp only: initState_w_def initState_def new_round_w_True)

lemma initState_w_regenerates:
  assumes "forceNew \<or> \<not> holds_round d"
  shows "initState_w writable forceNew rnd d = new_round_w writable rnd"
proof (cases forceNew)
  case True
  then show ?thesis by (simp add: initState_w_def)
next
  case False
  with assms have nh: "\<not> holds_round d" by simp
  show ?thesis
  proof (cases d)
    case None
    then show ?thesis using False
      by (simp add: initState_w_def loadState_def existsSync_def)
  next
    case (Some f)
    show ?thesis
    proof (cases f)
      case Garbled
      then show ?thesis using False Some
        by (simp add: initState_w_def loadState_def existsSync_def read_and_parse_def)
    next
      case (Json state)
      then have "validateAssignments (get_prop state ''assignments'') NAMES \<noteq> Inr ()"
        using nh Some by (simp add: holds_round_def)
      then show ?thesis using False Some Json
        by (auto simp: initState_w_def loadState_def existsSync_def read_and_parse_def
            split: sum.splits)
    qed
  qed
qed

lemma new_round_w_error:
  assumes "unit_interval rnd" and "new_round_w writable rnd = Inl e"
  shows "e = GenerationExhausted \<or> e = WriteError"
proof (cases "createDerangement rnd NAMES")
  case (Inl e')
  then show ?thesis
    using assms createDerangement_NAMES_error[OF assms(1) Inl]
    by (simp add: new_round_w_def)
next
  case (Inr a)
  then show ?thesis
    using assms(2)
    by (auto simp: new_round_w_def saveState_w_def Let_def split: if_splits)
qed

lemma new_round_w_saved:
  assumes "createDerangement rnd NAMES = Inr g"
  shows "new_round_w True rnd = Inr (round_of g, saveState (round_of g))"
  using assms
  by (simp add: new_round_w_def saveState_w_def saveState_def round_of_def Let_def)

text \<open>
  C4. \<open>loadState\<close> never throws: a missing or unreadable file reads as \<^verbatim>\<open>null\<close>. When
  the file holds no round that \<open>initState\<close> accepts (no file, no parse, no
  \<^verbatim>\<open>assignments\<close> field, or an assignment that fails validation), \<open>initState\<close> does
  what it does for a forced new round: it runs the creating block, and no read, parse,
  type or validation error of the stored record reaches the caller, whether the write
  succeeds or not. When the write succeeds, the block returns and saves the fresh round
  built from the first of the 10000 permitted shuffles that has no fixed point, and
  \<open>initState\<close> returns only if there is such a shuffle.
\<close>

theorem self_healing:
  assumes "unit_interval rnd" and "\<not> holds_round d"
  shows "loadState d = Inr (case d of Some (Json v) \<Rightarrow> v | _ \<Rightarrow> JNull) \<and>
         initState_w writable False rnd d = new_round_w writable rnd \<and>
         initState False rnd d = initState_w True False rnd d \<and>
         initState_w writable False rnd d \<noteq> Inl (Invalid r) \<and>
         initState_w writable False rnd d \<noteq> Inl SyntaxError \<and>
         initState_w writable False rnd d \<noteq> Inl ReadError \<and>
         initState_w writable False rnd d \<noteq> Inl TypeError \<and>
         (a < 10000 \<and> \<not> has_fixed_point (shuffle_at rnd NAMES a) NAMES \<and>
          (\<forall>b<a. has_fixed_point (shuffle_at rnd NAMES b) NAMES) \<and> writable \<longrightarrow>
            derangement_of NAMES (JObj (build_assignments NAMES (shuffle_at rnd NAMES a))) \<and>
            initState_w writable False rnd d =
              Inr (round_of (JObj (build_assignments NAMES (shuffle_at rnd NAMES a))),
                   saveState (round_of (JObj (build_assignments NAMES (shuffle_at rnd NAMES a)))))) \<and>
         (initState_w writable False rnd d = Inr (state, d') \<longrightarrow>
            (\<exists>a<10000. \<not> has_fixed_point (shuffle_at rnd NAMES a) NAMES))"
proof -
  have i: "initState_w writable False rnd d = new_round_w writable rnd"
    using assms(2) by (simp add: initState_w_regenerates)
  have e: "initState_w writable False rnd d \<noteq> Inl (Invalid r) \<and>
         initState_w writable False rnd d \<noteq> Inl SyntaxError \<and>
         initState_w writable False rnd d \<noteq> Inl ReadError \<and>
         initState_w writable False rnd d \<noteq> Inl TypeError"
    using new_round_w_error[OF assms(1), of writable] unfolding i by auto
  have s: "derangement_of NAMES (JObj (build_assignments NAMES (shuffle_at rnd NAMES a))) \<and>
      initState_w writable False rnd d =
        Inr (round_of (JObj (build_assignments NAMES (shuffle_at rnd NAMES a))),
             saveState (round_of (JObj (build_assignments NAMES (shuffle_at rnd NAMES a)))))"
    if h: "a < 10000 \<and> \<not> has_fixed_point (shuffle_at rnd NAMES a) NAMES \<and>
          (\<forall>b<a. has_fixed_point (shuffle_at rnd NAMES b) NAMES) \<and> writable"
  proof -
    have c: "createDerangement rnd NAMES =
        Inr (JObj (build_assignments NAMES (shuffle_at rnd NAMES a)))"
      using h createDerangement_first_success[OF assms(1), of a] by blast
    show ?thesis
      using createDerangement_sound[OF assms(1) distinct_NAMES c] new_round_w_saved[OF c] h
      unfolding i by simp
  qed
  have f: "\<exists>a<10000. \<not> has_fixed_point (shuffle_at rnd NAMES a) NAMES"
    if ret: "initState_w writable False rnd d = Inr (state, d')"
  proof (rule ccontr)
    assume "\<not> (\<exists>a<10000. \<not> has_fixed_point (shuffle_at rnd NAMES a) NAMES)"
    then have "\<forall>b<10000. has_fixed_point (shuffle_at rnd NAMES b) NAMES"
      by blast
    then have "new_round_w writable rnd = Inl GenerationExhausted"
      using createDerangement_all_fail by (simp add: new_round_w_def)
    then show False
      using ret unfolding i by simp
  qed
  have t: "initState False rnd d = initState_w True False rnd d"
    by (simp only: initState_w_True)
  have l: "loadState d = Inr (case d of Some (Json v) \<Rightarrow> v | _ \<Rightarrow> JNull)"
    by (rule loadState_total)
  from l i t e s f show ?thesis by blast
qed

lemma rnd_late_unit: "unit_interval rnd_late"
  by (simp add: unit_interval_def rnd_late_def)

theorem self_healing_witness:
  "unit_interval rnd_late \<and> \<not> holds_round (Some Garbled) \<and> (3::nat) < 10000 \<and>
   has_fixed_point (shuffle_at rnd_late NAMES 0) NAMES \<and>
   has_fixed_point (shuffle_at rnd_late NAMES 1) NAMES \<and>
   has_fixed_point (shuffle_at rnd_late NAMES 2) NAMES \<and>
   \<not> has_fixed_point (shuffle_at rnd_late NAMES 3) NAMES \<and>
   JObj (build_assignments NAMES (shuffle_at rnd_late NAMES 3)) = sample_assignments \<and>
   loadState (Some Garbled) = Inr JNull \<and>
   initState False rnd_late (Some Garbled) =
     Inr (round_of sample_assignments, saveState (round_of sample_assignments)) \<and>
   initState False rnd_late (Some Garbled) \<noteq> Inl (Invalid KeyCountMismatch) \<and>
   derangement_of NAMES sample_assignments"
proof -
  have h: "\<not> holds_round (Some Garbled)"
    by (simp add: holds_round_def)
  have n: "(3::nat) < 10000"
    by simp
  have f0: "has_fixed_point (shuffle_at rnd_late NAMES 0) NAMES"
    by code_simp
  have f1: "has_fixed_point (shuffle_at rnd_late NAMES 1) NAMES"
    by code_simp
  have f2: "has_fixed_point (shuffle_at rnd_late NAMES 2) NAMES"
    by code_simp
  have ok: "\<not> has_fixed_point (shuffle_at rnd_late NAMES 3) NAMES"
    by code_simp
  have g: "JObj (build_assignments NAMES (shuffle_at rnd_late NAMES 3)) = sample_assignments"
    by code_simp
  have before: "\<forall>b<3. has_fixed_point (shuffle_at rnd_late NAMES b) NAMES"
  proof (intro allI impI)
    fix b :: nat assume "b < 3"
    then have "b = 0 \<or> b = 1 \<or> b = 2" by linarith
    then show "has_fixed_point (shuffle_at rnd_late NAMES b) NAMES"
      using f0 f1 f2 by blast
  qed
  note T = self_healing[OF rnd_late_unit h, where writable = True and r = KeyCountMismatch
      and a = 3 and state = "round_of sample_assignments"
      and d' = "saveState (round_of sample_assignments)", unfolded g]
  from T have l: "loadState (Some Garbled) = Inr JNull"
    by simp
  from T n ok before have w: "derangement_of NAMES sample_assignments \<and>
      initState_w True False rnd_late (Some Garbled) =
        Inr (round_of sample_assignments, saveState (round_of sample_assignments))"
    by blast
  from T have t: "initState False rnd_late (Some Garbled) = initState_w True False rnd_late (Some Garbled)"
    by blast
  from T have e: "initState_w True False rnd_late (Some Garbled) \<noteq> Inl (Invalid KeyCountMismatch)"
    by blast
  have i: "initState False rnd_late (Some Garbled) =
     Inr (round_of sample_assignments, saveState (round_of sample_assignments))"
    using t w by simp
  have e': "initState False rnd_late (Some Garbled) \<noteq> Inl (Invalid KeyCountMismatch)"
    using t e by simp
  from w have dr: "derangement_of NAMES sample_assignments"
    by blast
  show ?thesis
    by (intro conjI rnd_late_unit h n f0 f1 f2 ok g l i e' dr)
qed

section \<open>What the validator rejects\<close>

lemma check_names_find:
  "check_names a names =
    (case find (\<lambda>name. \<not> truthy (get_prop a name) \<or> get_prop a name = JStr name) names of
       Some name \<Rightarrow>
         if \<not> truthy (get_prop a name) then Inl (Invalid (NoGiftee name))
         else Inl (Invalid (SelfGift name))
     | None \<Rightarrow> Inr ())"
  by (induction names) auto

lemma validate_by_member_eq:
  "validateAssignments a names = validate_by_member a names"
  by (auto simp: validateAssignments_def validate_by_member_def check_names_find
      split: sum.splits option.splits)

lemma Set_size_eq_length:
  "Set_size vs = length vs \<longleftrightarrow> distinct (filter is_prim vs)"
proof -
  have "length (filter is_prim vs) + length (filter (\<lambda>v. \<not> is_prim v) vs) = length vs"
    by (rule sum_length_filter_compl)
  moreover have "length (remdups (filter is_prim vs)) = length (filter is_prim vs)
      \<longleftrightarrow> distinct (filter is_prim vs)"
    by (simp add: length_remdups_eq)
  ultimately show ?thesis
    unfolding Set_size_def by linarith
qed

lemma duplicate_not_distinct:
  "(k1, v) \<in> set ps \<Longrightarrow> (k2, v) \<in> set ps \<Longrightarrow> k1 \<noteq> k2 \<Longrightarrow> P v \<Longrightarrow>
     \<not> distinct (filter P (map snd ps))"
proof (induction ps)
  case Nil
  then show ?case by simp
next
  case (Cons p ps)
  have mem: "v \<in> set (filter P (map snd ps))" if "(k, v) \<in> set ps" for k
    using that Cons.prems(4) by force
  show ?case
  proof (cases "snd p = v")
    case True
    then have "(k1, v) \<in> set ps \<or> (k2, v) \<in> set ps"
      using Cons.prems by (cases p) auto
    then show ?thesis
      using True mem Cons.prems(4) by auto
  next
    case False
    then have "(k1, v) \<in> set ps" "(k2, v) \<in> set ps"
      using Cons.prems by auto
    then show ?thesis
      using Cons.IH Cons.prems by simp
  qed
qed

lemma validate_object_cases:
  "validateAssignments (JObj ps) names = Inr () \<or> rejects (JObj ps) names"
  by (auto simp: rejects_def validate_by_member_eq validate_by_member_def Object_keys_def
      Object_values_def split: option.splits)


lemma accepted_facts:
  assumes "validateAssignments (JObj ps) names = Inr ()"
  shows "length ps = length names"
    and "\<forall>n \<in> set names. truthy (get_prop (JObj ps) n) \<and> get_prop (JObj ps) n \<noteq> JStr n"
    and "distinct (filter is_prim (map snd ps))"
proof -
  show "length ps = length names"
    using assms by (rule validate_key_count)
  show "\<forall>n \<in> set names. truthy (get_prop (JObj ps) n) \<and> get_prop (JObj ps) n \<noteq> JStr n"
    using validate_check_names[OF assms] check_names_Inr by blast
  have "Set_size (map snd ps) = length (map snd ps)"
    using assms
    by (auto simp: validateAssignments_def Object_keys_def Object_values_def
        split: if_splits sum.splits)
  then show "distinct (filter is_prim (map snd ps))"
    by (simp only: Set_size_eq_length)
qed

lemma get_prop_missing:
  assumes "n \<notin> fst ` set ps" and "n \<notin> set object_proto_names"
  shows "get_prop (JObj ps) n = JUndefined"
proof -
  have "map_of ps n = None"
    using assms(1) by (simp add: map_of_eq_None_iff)
  then show ?thesis
    using assms(2) by (simp add: get_prop_def builtin_member_def)
qed

lemma get_prop_own:
  assumes "distinct (map fst ps)" and "(k, v) \<in> set ps"
  shows "get_prop (JObj ps) k = v"
  using assms by (simp add: get_prop_def)

lemma rejects_missing_key:
  assumes "n \<in> set names" and "n \<notin> fst ` set ps" and "n \<notin> set object_proto_names"
  shows "rejects (JObj ps) names"
proof -
  have "validateAssignments (JObj ps) names \<noteq> Inr ()"
  proof
    assume "validateAssignments (JObj ps) names = Inr ()"
    from accepted_facts(2)[OF this] assms(1) have "truthy (get_prop (JObj ps) n)"
      by blast
    then show False
      using get_prop_missing[OF assms(2,3)] by simp
  qed
  then show ?thesis
    using validate_object_cases by blast
qed

lemma rejects_duplicate_value:
  assumes "(k1, v) \<in> set ps" and "(k2, v) \<in> set ps" and "k1 \<noteq> k2" and "is_prim v"
  shows "rejects (JObj ps) names"
proof -
  have "validateAssignments (JObj ps) names \<noteq> Inr ()"
    using accepted_facts(3)[of ps names]
      duplicate_not_distinct[of k1 v ps k2 is_prim, OF assms] by blast
  then show ?thesis
    using validate_object_cases by blast
qed

lemma rejects_self_entry:
  assumes dk: "distinct (map fst ps)" and dn: "distinct names"
    and np: "set names \<inter> set object_proto_names = {}"
    and self: "(x, JStr x) \<in> set ps"
  shows "rejects (JObj ps) names"
proof -
  have "validateAssignments (JObj ps) names \<noteq> Inr ()"
  proof
    assume ok: "validateAssignments (JObj ps) names = Inr ()"
    note len = accepted_facts(1)[OF ok] and mem = accepted_facts(2)[OF ok]
    have sub: "set names \<subseteq> set (map fst ps)"
    proof
      fix n assume n: "n \<in> set names"
      show "n \<in> set (map fst ps)"
      proof (rule ccontr)
        assume "n \<notin> set (map fst ps)"
        then have "get_prop (JObj ps) n = JUndefined"
          using get_prop_missing[of n ps] np n by auto
        moreover have "truthy (get_prop (JObj ps) n)"
          using mem n by blast
        ultimately show False by simp
      qed
    qed
    have "card (set names) = card (set (map fst ps))"
      using dk dn len distinct_card[of names] distinct_card[of "map fst ps"] by simp
    then have "set names = set (map fst ps)"
      using sub by (simp add: card_subset_eq)
    then have "x \<in> set names"
      using self by force
    then have "get_prop (JObj ps) x \<noteq> JStr x"
      using mem by blast
    then show False
      using get_prop_own[OF dk self] by simp
  qed
  then show ?thesis
    using validate_object_cases by blast
qed


text \<open>
  C2. The validator makes the key-count check, the value-count check, then for each
  member in list order the missing-giftee check followed by the self-assignment check,
  and last the duplicate check; each failure has its own reason. For a member list of
  distinct names none of which is a property name of \<^verbatim>\<open>Object.prototype\<close>, it rejects
  every mapping that lacks the key of a member, every mapping in which two keys have the
  same primitive value, and every mapping with an entry of a name to itself.
\<close>

theorem validateAssignments_checks:
  assumes "distinct (map fst ps)" and "distinct names"
    and "set names \<inter> set object_proto_names = {}"
  shows "validateAssignments (JObj ps) names = validate_by_member (JObj ps) names \<and>
         (n \<in> set names \<and> n \<notin> fst ` set ps \<longrightarrow> rejects (JObj ps) names) \<and>
         ((k1, v) \<in> set ps \<and> (k2, v) \<in> set ps \<and> k1 \<noteq> k2 \<and> is_prim v
            \<longrightarrow> rejects (JObj ps) names) \<and>
         ((x, JStr x) \<in> set ps \<longrightarrow> rejects (JObj ps) names)"
proof (intro conjI impI)
  show "validateAssignments (JObj ps) names = validate_by_member (JObj ps) names"
    by (rule validate_by_member_eq)
next
  assume "n \<in> set names \<and> n \<notin> fst ` set ps"
  moreover from this have "n \<notin> set object_proto_names"
    using assms(3) by blast
  ultimately show "rejects (JObj ps) names"
    using rejects_missing_key by blast
next
  assume "(k1, v) \<in> set ps \<and> (k2, v) \<in> set ps \<and> k1 \<noteq> k2 \<and> is_prim v"
  then show "rejects (JObj ps) names"
    using rejects_duplicate_value by blast
next
  assume "(x, JStr x) \<in> set ps"
  then show "rejects (JObj ps) names"
    using assms by (rule rejects_self_entry[rotated 3])
qed

theorem validateAssignments_checks_witness:
  "distinct (map fst tampered_entries) \<and> distinct NAMES \<and>
   set NAMES \<inter> set object_proto_names = {} \<and>
   ''Paul'' \<in> set NAMES \<and> ''Paul'' \<notin> fst ` set tampered_entries \<and>
   (''Ben'', JStr ''Lara'') \<in> set tampered_entries \<and>
   (''Beni'', JStr ''Lara'') \<in> set tampered_entries \<and> ''Ben'' \<noteq> ''Beni'' \<and>
   is_prim (JStr ''Lara'') \<and>
   (''Zorro'', JStr ''Zorro'') \<in> set tampered_entries \<and>
   rejects (JObj tampered_entries) NAMES \<and>
   validateAssignments (JObj tampered_entries) NAMES = validate_by_member (JObj tampered_entries) NAMES"
proof -
  have d: "distinct (map fst tampered_entries)"
    by (simp add: tampered_entries_def)
  have p: "set NAMES \<inter> set object_proto_names = {}"
    by (simp add: NAMES_def object_proto_names_def)
  have m: "''Paul'' \<in> set NAMES \<and> ''Paul'' \<notin> fst ` set tampered_entries"
    by (simp add: NAMES_def tampered_entries_def)
  have v: "(''Ben'', JStr ''Lara'') \<in> set tampered_entries \<and>
           (''Beni'', JStr ''Lara'') \<in> set tampered_entries \<and> ''Ben'' \<noteq> ''Beni'' \<and>
           is_prim (JStr ''Lara'')"
    by (simp add: tampered_entries_def)
  have x: "(''Zorro'', JStr ''Zorro'') \<in> set tampered_entries"
    by (simp add: tampered_entries_def)
  note T = validateAssignments_checks[OF d distinct_NAMES p,
      of "''Paul''" "''Ben''" "JStr ''Lara''" "''Beni''" "''Zorro''"]
  from T m have r: "rejects (JObj tampered_entries) NAMES"
    by blast
  from T have e: "validateAssignments (JObj tampered_entries) NAMES =
      validate_by_member (JObj tampered_entries) NAMES"
    by blast
  show ?thesis
    using d distinct_NAMES p m v x r e by blast
qed

text \<open>
  The claim as it is worded fails twice. With the third check finished before the fourth,
  the tampered assignment would be refused for Paul's missing giftee; the code refuses it
  for Anni's self-assignment, which it meets first. And a member named \<^verbatim>\<open>toString\<close>
  reads the inherited function as its giftee, so a mapping without that key, and with an
  entry of a name to itself, is accepted.
\<close>

theorem validateAssignments_checks_counterexample:
  "validateAssignments (JObj tampered_entries) NAMES = Inl (Invalid (SelfGift ''Anni'')) \<and>
   validate_in_spec_order (JObj tampered_entries) NAMES = Inl (Invalid (NoGiftee ''Paul'')) \<and>
   ''toString'' \<in> set inherited_name_members \<and>
   ''toString'' \<notin> fst ` set inherited_name_entries \<and>
   (''Z'', JStr ''Z'') \<in> set inherited_name_entries \<and>
   validateAssignments (JObj inherited_name_entries) inherited_name_members = Inr ()"
proof -
  have 1: "validateAssignments (JObj tampered_entries) NAMES = Inl (Invalid (SelfGift ''Anni''))"
    by code_simp
  have 2: "validate_in_spec_order (JObj tampered_entries) NAMES = Inl (Invalid (NoGiftee ''Paul''))"
    by code_simp
  have 3: "''toString'' \<in> set inherited_name_members"
    by (simp add: inherited_name_members_def)
  have 4: "''toString'' \<notin> fst ` set inherited_name_entries"
    by (simp add: inherited_name_entries_def)
  have 5: "(''Z'', JStr ''Z'') \<in> set inherited_name_entries"
    by (simp add: inherited_name_entries_def)
  have 6: "validateAssignments (JObj inherited_name_entries) inherited_name_members = Inr ()"
    by code_simp
  show ?thesis
    by (intro conjI 1 2 3 4 5 6)
qed

end
